theory Spec2Isabelle
  imports Complex_Main "HOL-Library.Sublist"
begin

section \<open>JavaScript values and string operations used by the code\<close>

text \<open>
  Strings are lists of characters; the code's string operations are modelled on ASCII
  text.  \<^verbatim>\<open>toLowerCase\<close> maps the letters A to Z to a to z and leaves every other
  character unchanged.
\<close>

definition toLowerChar :: "char \<Rightarrow> char" where
  "toLowerChar c =
     (case map_of (zip ''ABCDEFGHIJKLMNOPQRSTUVWXYZ'' ''abcdefghijklmnopqrstuvwxyz'') c of
        Some l \<Rightarrow> l
      | None \<Rightarrow> c)"

definition toLowerCase :: "string \<Rightarrow> string" where
  "toLowerCase s = map toLowerChar s"

text \<open>\<^verbatim>\<open>s.startsWith(p)\<close> and \<^verbatim>\<open>s.includes(t)\<close>.\<close>

fun startsWith :: "string \<Rightarrow> string \<Rightarrow> bool" where
  "startsWith s [] = True"
| "startsWith [] (p # ps) = False"
| "startsWith (c # cs) (p # ps) = (c = p \<and> startsWith cs ps)"

fun str_includes :: "string \<Rightarrow> string \<Rightarrow> bool" where
  "str_includes [] t = (t = [])"
| "str_includes (c # cs) t = (startsWith (c # cs) t \<or> str_includes cs t)"

text \<open>\<^verbatim>\<open>s.split(sep)\<close> for a one-character separator: the pieces between separators,
  empty pieces included; the empty string splits into one empty piece.\<close>

fun splitOn :: "char \<Rightarrow> string \<Rightarrow> string list" where
  "splitOn sep [] = [[]]"
| "splitOn sep (c # cs) =
     (if c = sep then [] # splitOn sep cs
      else (case splitOn sep cs of w # ws \<Rightarrow> (c # w) # ws | [] \<Rightarrow> [[c]]))"

text \<open>\<^verbatim>\<open>xs.join(sep)\<close>.\<close>

fun joinWith :: "string \<Rightarrow> string list \<Rightarrow> string" where
  "joinWith sep [] = []"
| "joinWith sep [x] = x"
| "joinWith sep (x # y # ys) = x @ sep @ joinWith sep (y # ys)"

text \<open>\<^verbatim>\<open>s.replace(/_/g, '-')\<close>.\<close>

definition replaceUnderscores :: "string \<Rightarrow> string" where
  "replaceUnderscores s = map (\<lambda>c. if c = CHR ''_'' then CHR ''-'' else c) s"

text \<open>The decimal rendering of an integer inside a template string.\<close>

function showNat :: "nat \<Rightarrow> string" where
  "showNat n = (if n < 10 then [''0123456789'' ! n] else showNat (n div 10) @ [''0123456789'' ! (n mod 10)])"
  by pat_completeness auto
termination
  by (relation "measure id") auto

declare showNat.simps [simp del]

definition showInt :: "int \<Rightarrow> string" where
  "showInt i = (if i < 0 then CHR ''-'' # showNat (nat (- i)) else showNat (nat i))"

text \<open>
  Values of type \<^verbatim>\<open>unknown\<close> are JSON values.  JavaScript's \<^verbatim>\<open>undefined\<close> is the
  \<open>None\<close> of an optional field.
\<close>

datatype jsval =
  JNull | JBool bool | JNum rat | JStr string | JArr "jsval list" | JObj "(string \<times> jsval) list"

fun typeof :: "jsval \<Rightarrow> string" where
  "typeof JNull = ''object''"
| "typeof (JBool b) = ''boolean''"
| "typeof (JNum n) = ''number''"
| "typeof (JStr s) = ''string''"
| "typeof (JArr xs) = ''object''"
| "typeof (JObj kvs) = ''object''"

fun isArray :: "jsval \<Rightarrow> bool" where
  "isArray (JArr xs) = True"
| "isArray v = False"

fun truthy :: "jsval \<Rightarrow> bool" where
  "truthy JNull = False"
| "truthy (JBool b) = b"
| "truthy (JNum n) = (n \<noteq> 0)"
| "truthy (JStr s) = (s \<noteq> [])"
| "truthy (JArr xs) = True"
| "truthy (JObj kvs) = True"

text \<open>Property access \<^verbatim>\<open>v.key\<close> on a value that is not null: \<open>None\<close> is \<^verbatim>\<open>undefined\<close>.\<close>

fun getProp :: "jsval \<Rightarrow> string \<Rightarrow> jsval option" where
  "getProp (JObj kvs) key = map_of kvs key"
| "getProp v key = None"

text \<open>A string-valued operand of \<^verbatim>\<open>||\<close>: absent and empty strings are falsy.\<close>

fun orElse :: "string option \<Rightarrow> string \<Rightarrow> string" where
  "orElse None d = d"
| "orElse (Some s) d = (if s = [] then d else s)"

text \<open>
  A thrown JavaScript \<^verbatim>\<open>Error\<close>: its name, its message and, when it is a \<^verbatim>\<open>MASError\<close>,
  the \<^verbatim>\<open>context.retryable\<close> flag.
\<close>

record JsError =
  errName :: string
  errMessage :: string
  masRetryable :: "bool option"

section \<open>Resilience layer (src/mas/resilience.ts)\<close>

subsection \<open>Retry with exponential backoff\<close>

text \<open>
  \<^verbatim>\<open>RetryConfig\<close>.  Delays and the multiplier are JavaScript numbers; they are
  modelled as exact rationals.  \<^verbatim>\<open>maxAttempts\<close> is the bound of an integer counting loop
  and is modelled as an integer.  The predicate \<^verbatim>\<open>retryOn\<close> is a field, as in the source.
\<close>

record 'e RetryConfig =
  maxAttempts :: int
  initialDelayMs :: rat
  maxDelayMs :: rat
  backoffMultiplier :: rat
  retryOn :: "'e \<Rightarrow> bool"

text \<open>
  What one run of \<^verbatim>\<open>withRetry\<close> did: the value it returned or the value it threw
  (\<open>None\<close> is JavaScript's \<^verbatim>\<open>undefined\<close>, thrown by the final \<^verbatim>\<open>throw lastError\<close> when the
  loop body never ran), the state the wrapped function left behind, how often the
  wrapped function was invoked, and the arguments of the \<^verbatim>\<open>sleep\<close> calls in order.
\<close>

record ('e, 'a, 's) RetryRun =
  outcome :: "'e option + 'a"
  final :: 's
  invocations :: nat
  sleeps :: "rat list"

text \<open>
  The \<^verbatim>\<open>for (let attempt = 1; attempt <= cfg.maxAttempts; attempt++)\<close> loop of
  \<^verbatim>\<open>withRetry\<close>.  The wrapped function \<^verbatim>\<open>fn\<close> is effectful: it maps the state of its
  environment to a thrown error (\<open>Inl\<close>) or a value (\<open>Inr\<close>) and the next state.
\<close>

function retryLoop ::
  "'e RetryConfig \<Rightarrow> ('s \<Rightarrow> ('e + 'a) \<times> 's) \<Rightarrow> int \<Rightarrow> rat \<Rightarrow> 'e option \<Rightarrow> 's \<Rightarrow> nat \<Rightarrow> rat list
     \<Rightarrow> ('e, 'a, 's) RetryRun"
where
  "retryLoop cfg fn attempt delay lastError s n slept =
     (if attempt \<le> maxAttempts cfg then
        (case fst (fn s) of
           Inr v \<Rightarrow> \<lparr>outcome = Inr v, final = snd (fn s), invocations = Suc n, sleeps = slept\<rparr>
         | Inl e \<Rightarrow>
             if \<not> retryOn cfg e \<or> attempt = maxAttempts cfg
             then \<lparr>outcome = Inl (Some e), final = snd (fn s), invocations = Suc n, sleeps = slept\<rparr>
             else retryLoop cfg fn (attempt + 1)
                    (min (delay * backoffMultiplier cfg) (maxDelayMs cfg))
                    (Some e) (snd (fn s)) (Suc n) (slept @ [delay]))
      else \<lparr>outcome = Inl lastError, final = s, invocations = n, sleeps = slept\<rparr>)"
  by pat_completeness auto
termination
  by (relation "measure (\<lambda>(cfg, fn, attempt, delay, lastError, s, n, slept).
                  nat (maxAttempts cfg + 1 - attempt))") auto

declare retryLoop.simps [simp del]

definition withRetry ::
  "'e RetryConfig \<Rightarrow> ('s \<Rightarrow> ('e + 'a) \<times> 's) \<Rightarrow> 's \<Rightarrow> ('e, 'a, 's) RetryRun"
where
  "withRetry cfg fn s = retryLoop cfg fn 1 (initialDelayMs cfg) None s 0 []"

definition DEFAULT_RETRY_CONFIG :: "JsError RetryConfig" where
  "DEFAULT_RETRY_CONFIG =
     \<lparr>maxAttempts = 3, initialDelayMs = 100, maxDelayMs = 5000, backoffMultiplier = 2,
      retryOn = (\<lambda>e. case masRetryable e of Some r \<Rightarrow> r | None \<Rightarrow> False)\<rparr>"

text \<open>
  Vocabulary for stating what a run of \<^verbatim>\<open>withRetry\<close> did: the environment after \<open>k\<close>
  invocations of the wrapped function.
\<close>

fun stateAfter :: "('s \<Rightarrow> ('e + 'a) \<times> 's) \<Rightarrow> nat \<Rightarrow> 's \<Rightarrow> 's" where
  "stateAfter fn 0 s = s"
| "stateAfter fn (Suc k) s = stateAfter fn k (snd (fn s))"

text \<open>
  The delay schedule in the words of the specification: the first delay is given, each
  further delay is the previous one times the multiplier, capped at the maximum.
\<close>

fun backoffDelays :: "'e RetryConfig \<Rightarrow> rat \<Rightarrow> nat \<Rightarrow> rat list" where
  "backoffDelays cfg d 0 = []"
| "backoffDelays cfg d (Suc k) =
     d # backoffDelays cfg (min (d * backoffMultiplier cfg) (maxDelayMs cfg)) k"


subsection \<open>Circuit breaker\<close>

datatype CircuitState = CLOSED | OPEN | HALF_OPEN

record CircuitBreakerConfig =
  failureThreshold :: int
  successThreshold :: int
  resetTimeoutMs :: int
  monitoringWindowMs :: int

definition DEFAULT_CIRCUIT_CONFIG :: CircuitBreakerConfig where
  "DEFAULT_CIRCUIT_CONFIG =
     \<lparr>failureThreshold = 5, successThreshold = 2, resetTimeoutMs = 30000,
      monitoringWindowMs = 60000\<rparr>"

text \<open>Timestamps are the millisecond counts of \<^verbatim>\<open>Date.now()\<close>.\<close>

record CircuitStats =
  state :: CircuitState
  failures :: int
  successes :: int
  lastFailure :: int
  lastStateChange :: int
  recentFailures :: "int list"

record CircuitBreaker =
  circuits :: "string \<rightharpoonup> CircuitStats"
  config :: CircuitBreakerConfig

text \<open>
  Every operation reads the clock; the reading is the argument \<open>now\<close>.  Within one
  operation the clock read of \<^verbatim>\<open>getCircuit\<close> and the operation's own read are the same
  instant.
\<close>

definition getCircuit :: "CircuitBreaker \<Rightarrow> string \<Rightarrow> int \<Rightarrow> CircuitStats \<times> CircuitBreaker" where
  "getCircuit cb serviceId now =
     (case circuits cb serviceId of
        Some circuit \<Rightarrow> (circuit, cb)
      | None \<Rightarrow>
          (let circuit = \<lparr>state = CLOSED, failures = 0, successes = 0, lastFailure = 0,
                          lastStateChange = now, recentFailures = []\<rparr>
           in (circuit, cb\<lparr>circuits := (circuits cb)(serviceId \<mapsto> circuit)\<rparr>)))"

definition setCircuit :: "CircuitBreaker \<Rightarrow> string \<Rightarrow> CircuitStats \<Rightarrow> CircuitBreaker" where
  "setCircuit cb serviceId circuit = cb\<lparr>circuits := (circuits cb)(serviceId \<mapsto> circuit)\<rparr>"

definition canExecute :: "CircuitBreaker \<Rightarrow> string \<Rightarrow> int \<Rightarrow> bool \<times> CircuitBreaker" where
  "canExecute cb serviceId now =
     (let (circuit, cb1) = getCircuit cb serviceId now in
      case state circuit of
        CLOSED \<Rightarrow> (True, cb1)
      | OPEN \<Rightarrow>
          if now - lastStateChange circuit \<ge> resetTimeoutMs (config cb)
          then (True, setCircuit cb1 serviceId
                        (circuit\<lparr>state := HALF_OPEN, lastStateChange := now, successes := 0\<rparr>))
          else (False, cb1)
      | HALF_OPEN \<Rightarrow> (True, cb1))"

definition recordSuccess :: "CircuitBreaker \<Rightarrow> string \<Rightarrow> int \<Rightarrow> CircuitBreaker" where
  "recordSuccess cb serviceId now =
     (let (circuit, cb1) = getCircuit cb serviceId now in
      if state circuit = HALF_OPEN then
        (let c1 = circuit\<lparr>successes := successes circuit + 1\<rparr> in
         if successes c1 \<ge> successThreshold (config cb)
         then setCircuit cb1 serviceId (c1\<lparr>state := CLOSED, failures := 0, lastStateChange := now\<rparr>)
         else setCircuit cb1 serviceId c1)
      else cb1)"

definition recordFailure :: "CircuitBreaker \<Rightarrow> string \<Rightarrow> int \<Rightarrow> CircuitBreaker" where
  "recordFailure cb serviceId now =
     (let (circuit, cb1) = getCircuit cb serviceId now;
          c1 = circuit\<lparr>recentFailures :=
                 filter (\<lambda>t. now - t < monitoringWindowMs (config cb)) (recentFailures circuit) @ [now]\<rparr>;
          c2 = c1\<lparr>failures := failures c1 + 1, lastFailure := now\<rparr>
      in if state c2 = HALF_OPEN then
           setCircuit cb1 serviceId (c2\<lparr>state := OPEN, lastStateChange := now\<rparr>)
         else if state c2 = CLOSED then
           (if int (length (recentFailures c2)) \<ge> failureThreshold (config cb)
            then setCircuit cb1 serviceId (c2\<lparr>state := OPEN, lastStateChange := now\<rparr>)
            else setCircuit cb1 serviceId c2)
         else setCircuit cb1 serviceId c2)"

text \<open>The singleton \<^verbatim>\<open>toolCircuitBreaker\<close>, as constructed at module load.\<close>

definition toolCircuitBreaker :: CircuitBreaker where
  "toolCircuitBreaker =
     \<lparr>circuits = Map.empty,
      config = DEFAULT_CIRCUIT_CONFIG\<lparr>failureThreshold := 3, resetTimeoutMs := 15000\<rparr>\<rparr>"

subsection \<open>Auxiliary notions for the circuit breaker proofs\<close>

text \<open>The circuit that \<^verbatim>\<open>getCircuit\<close> creates, and the bookkeeping part of
  \<^verbatim>\<open>recordFailure\<close> (pruning the window, appending the time stamp, counting).\<close>

definition freshCircuit :: "int \<Rightarrow> CircuitStats" where
  "freshCircuit now = \<lparr>state = CLOSED, failures = 0, successes = 0, lastFailure = 0,
                          lastStateChange = now, recentFailures = []\<rparr>"

definition failedAt :: "CircuitBreakerConfig \<Rightarrow> CircuitStats \<Rightarrow> int \<Rightarrow> CircuitStats" where
  "failedAt cfg c now =
     c\<lparr>recentFailures := filter (\<lambda>t. now - t < monitoringWindowMs cfg) (recentFailures c) @ [now],
       failures := failures c + 1, lastFailure := now\<rparr>"

text \<open>The number of recorded failures that lie within the monitoring window ending at \<open>T\<close>.\<close>

definition inWindow :: "CircuitBreakerConfig \<Rightarrow> int \<Rightarrow> CircuitStats \<Rightarrow> nat" where
  "inWindow cfg T c = length (filter (\<lambda>u. T - u < monitoringWindowMs cfg) (recentFailures c))"

text \<open>A service for which no failure is on record: no circuit yet, or a CLOSED circuit
  with an empty window.\<close>

definition noRecentFailures :: "CircuitBreaker \<Rightarrow> string \<Rightarrow> bool" where
  "noRecentFailures cb serviceId =
     (case circuits cb serviceId of
        None \<Rightarrow> True
      | Some c \<Rightarrow> state c = CLOSED \<and> recentFailures c = [])"

section \<open>Tool results (src/mas/tools/client.ts, src/mas/errors.ts)\<close>

text \<open>The members of \<^verbatim>\<open>ErrorCode\<close> that the tool client uses.\<close>

datatype ErrorCode =
  TOOL_NOT_FOUND | TOOL_VALIDATION_FAILED | TOOL_EXECUTION_FAILED
  | TOOL_TIMEOUT | TOOL_RATE_LIMITED | TOOL_NETWORK_ERROR

fun errorCodeText :: "ErrorCode \<Rightarrow> string" where
  "errorCodeText TOOL_NOT_FOUND = ''E2001''"
| "errorCodeText TOOL_VALIDATION_FAILED = ''E2002''"
| "errorCodeText TOOL_EXECUTION_FAILED = ''E2003''"
| "errorCodeText TOOL_TIMEOUT = ''E2004''"
| "errorCodeText TOOL_RATE_LIMITED = ''E2005''"
| "errorCodeText TOOL_NETWORK_ERROR = ''E2006''"

record ToolCallResult =
  success :: bool
  data :: "jsval option"
  error :: "string option"
  errorCode :: "ErrorCode option"
  retryable :: "bool option"
  suggestion :: "string option"

text \<open>The parameters of a tool call, \<^verbatim>\<open>Record<string, unknown>\<close>.\<close>

type_synonym Params = "string \<rightharpoonup> jsval"

section \<open>Tool client (src/mas/tools/client.ts, src/meta/tool-mapper/tools.ts)\<close>

subsection \<open>Tool definitions\<close>

text \<open>
  \<^verbatim>\<open>ToolParam\<close> and \<^verbatim>\<open>ToolDefinition\<close>, with the fields that the client reads.  The fields
  \<^verbatim>\<open>name\<close>, \<^verbatim>\<open>type\<close> and \<^verbatim>\<open>enum\<close> of a parameter are \<open>paramName\<close>, \<open>paramType\<close> and
  \<open>paramEnum\<close> here.  The tool catalogue \<^verbatim>\<open>ALL_TOOLS\<close> is an argument of the operations.
\<close>

record ToolParam =
  paramName :: string
  paramType :: string
  required :: bool
  paramEnum :: "string list option"

record ToolDefinition =
  handle :: string
  endpoint :: string
  toolParams :: "ToolParam list"

definition getToolByHandle :: "ToolDefinition list \<Rightarrow> string \<Rightarrow> ToolDefinition option" where
  "getToolByHandle catalogue h = find (\<lambda>t. handle t = h) catalogue"

subsection \<open>Parameter validation\<close>

record Validation =
  valid :: bool
  validationError :: "string option"

text \<open>\<^verbatim>\<open>param.enum.includes(value as string)\<close>: only a string can equal a member.\<close>

fun enumIncludes :: "string list \<Rightarrow> jsval \<Rightarrow> bool" where
  "enumIncludes members (JStr s) = (s \<in> set members)"
| "enumIncludes members v = False"

text \<open>The checks that \<^verbatim>\<open>validateParams\<close> makes for one parameter that is present, in the
  order of the source; \<open>None\<close> when all pass.\<close>

definition checkValue :: "ToolParam \<Rightarrow> jsval \<Rightarrow> string option" where
  "checkValue param v =
     (if paramType param = ''string'' \<and> typeof v \<noteq> ''string''
      then Some (''Parameter '' @ paramName param @ '' must be a string'')
      else if paramType param = ''number'' \<and> typeof v \<noteq> ''number''
      then Some (''Parameter '' @ paramName param @ '' must be a number'')
      else if paramType param = ''boolean'' \<and> typeof v \<noteq> ''boolean''
      then Some (''Parameter '' @ paramName param @ '' must be a boolean'')
      else if paramType param = ''array'' \<and> \<not> isArray v
      then Some (''Parameter '' @ paramName param @ '' must be an array'')
      else if paramType param = ''object'' \<and> (typeof v \<noteq> ''object'' \<or> v = JNull \<or> isArray v)
      then Some (''Parameter '' @ paramName param @ '' must be an object'')
      else (case paramEnum param of
              Some members \<Rightarrow>
                if \<not> enumIncludes members v
                then Some (''Parameter '' @ paramName param @ '' must be one of: ''
                            @ joinWith '', '' members)
                else None
            | None \<Rightarrow> None))"

fun validateLoop :: "ToolParam list \<Rightarrow> Params \<Rightarrow> Validation" where
  "validateLoop [] ps = \<lparr>valid = True, validationError = None\<rparr>"
| "validateLoop (param # rest) ps =
     (case ps (paramName param) of
        None \<Rightarrow>
          if required param
          then \<lparr>valid = False,
                validationError = Some (''Missing required parameter: '' @ paramName param)\<rparr>
          else validateLoop rest ps
      | Some v \<Rightarrow>
          (case checkValue param v of
             Some msg \<Rightarrow> \<lparr>valid = False, validationError = Some msg\<rparr>
           | None \<Rightarrow> validateLoop rest ps))"

definition validateParams :: "ToolDefinition \<Rightarrow> Params \<Rightarrow> Validation" where
  "validateParams tool ps = validateLoop (toolParams tool) ps"

subsection \<open>The HTTP boundary\<close>

text \<open>
  What \<^verbatim>\<open>fetch\<close> delivers.  A response carries its status, the number that
  \<^verbatim>\<open>parseInt(response.headers.get('Retry-After') || '60')\<close> yields (\<open>None\<close> for \<^verbatim>\<open>NaN\<close>), its
  text, and the parsed body or the error that parsing raises.  A body is read through the
  source's casts: the fields \<^verbatim>\<open>success\<close>, \<^verbatim>\<open>data\<close>, \<^verbatim>\<open>error\<close> and \<^verbatim>\<open>message\<close>.
\<close>

record ParsedBody =
  bodySuccess :: bool
  bodyData :: "jsval option"
  bodyError :: "string option"
  bodyMessage :: "string option"

record HttpResponse =
  httpStatus :: int
  retryAfter :: "int option"
  bodyText :: string
  bodyJson :: "JsError + ParsedBody"

datatype HttpOutcome = Responded HttpResponse | Rejected JsError

record HttpRequest =
  url :: string
  body :: Params

text \<open>
  The world of the tool client: the circuit breaker singleton and the requests sent so
  far.  The network is a function from the number of earlier requests and the request
  to what \<^verbatim>\<open>fetch\<close> delivers; a request that the client aborts after its timeout is a
  rejection with the name \<^verbatim>\<open>AbortError\<close>.
\<close>

record ToolWorld =
  breaker :: CircuitBreaker
  sent :: "HttpRequest list"

type_synonym Network = "nat \<Rightarrow> HttpRequest \<Rightarrow> HttpOutcome"

record ToolClient =
  apiUrl :: string
  timeoutMs :: int

subsection \<open>Results built from the error constructors\<close>

text \<open>The message of a \<^verbatim>\<open>MASError\<close>: \<^verbatim>\<open>`[${code}] ${message}`\<close>.\<close>

definition masMessage :: "ErrorCode \<Rightarrow> string \<Rightarrow> string" where
  "masMessage code msg = ''['' @ errorCodeText code @ ''] '' @ msg"

definition failure :: "string \<Rightarrow> ErrorCode \<Rightarrow> bool \<Rightarrow> string \<Rightarrow> ToolCallResult" where
  "failure msg code again hint =
     \<lparr>success = False, data = None, error = Some msg, errorCode = Some code,
      retryable = Some again, suggestion = Some hint\<rparr>"

text \<open>A number as the operand of \<^verbatim>\<open>?:\<close> and \<^verbatim>\<open>||\<close>: \<^verbatim>\<open>NaN\<close> and zero are falsy.\<close>

definition rateLimitedResult :: "int option \<Rightarrow> ToolCallResult" where
  "rateLimitedResult after =
     (let seconds = (case after of Some n \<Rightarrow> if n \<noteq> 0 then Some n else None | None \<Rightarrow> None) in
      failure
        (masMessage TOOL_RATE_LIMITED
           (''Rate limited. '' @
            (case seconds of Some n \<Rightarrow> ''Retry after '' @ showInt n @ ''s''
                           | None \<Rightarrow> ''Please wait.'')))
        TOOL_RATE_LIMITED True
        (''Wait '' @ showInt (case seconds of Some n \<Rightarrow> n | None \<Rightarrow> 60)
           @ '' seconds before retrying.''))"

definition timeoutResult :: "int \<Rightarrow> ToolCallResult" where
  "timeoutResult ms =
     failure (masMessage TOOL_TIMEOUT (''Tool call timed out after '' @ showInt ms @ ''ms''))
       TOOL_TIMEOUT True ''API is slow. Retry or escalate if persists.''"

definition notFoundResult :: "string \<Rightarrow> ToolCallResult" where
  "notFoundResult h =
     failure (masMessage TOOL_NOT_FOUND (''Unknown tool: '' @ h)) TOOL_NOT_FOUND False
       ''Check tool handle spelling. Available tools: shopify_*, skio_*''"

definition networkErrorResult :: "string \<Rightarrow> ToolCallResult" where
  "networkErrorResult msg =
     failure (masMessage TOOL_NETWORK_ERROR (''Network error: '' @ msg)) TOOL_NETWORK_ERROR True
       ''Check network connectivity and API endpoint.''"

definition validationFailedResult :: "Validation \<Rightarrow> ToolCallResult" where
  "validationFailedResult v =
     \<lparr>success = False, data = None, error = validationError v,
      errorCode = Some TOOL_VALIDATION_FAILED, retryable = Some True,
      suggestion = Some (''Fix parameter and retry. '' @
        (case validationError v of Some msg \<Rightarrow> msg | None \<Rightarrow> ''undefined''))\<rparr>"

definition circuitOpenResult :: "string \<Rightarrow> ToolCallResult" where
  "circuitOpenResult h =
     failure (''Circuit open: '' @ h @ '' temporarily unavailable'') TOOL_RATE_LIMITED True
       ''Tool is experiencing issues. Wait and retry.''"

subsection \<open>\<^verbatim>\<open>makeRequest\<close> and \<^verbatim>\<open>execute\<close>\<close>

definition makeRequest ::
  "ToolClient \<Rightarrow> Network \<Rightarrow> string \<Rightarrow> string \<Rightarrow> Params \<Rightarrow> ToolWorld
     \<Rightarrow> (JsError + ToolCallResult) \<times> ToolWorld"
where
  "makeRequest client net ep h ps w =
     (let request = \<lparr>url = apiUrl client @ ep, body = ps\<rparr>;
          w1 = w\<lparr>sent := sent w @ [request]\<rparr>
      in case net (length (sent w)) request of
           Rejected e \<Rightarrow>
             if errName e = ''AbortError'' then (Inr (timeoutResult (timeoutMs client)), w1)
             else (Inl e, w1)
         | Responded r \<Rightarrow>
             if httpStatus r = 429 then (Inr (rateLimitedResult (retryAfter r)), w1)
             else if \<not> (200 \<le> httpStatus r \<and> httpStatus r \<le> 299) then
               (Inr (failure
                  (case bodyJson r of
                     Inr errData \<Rightarrow>
                       orElse (bodyMessage errData)
                         (orElse (bodyError errData) (''HTTP '' @ showInt (httpStatus r)))
                   | Inl e \<Rightarrow> ''HTTP '' @ showInt (httpStatus r) @ '': '' @ take 100 (bodyText r))
                  TOOL_EXECUTION_FAILED (500 \<le> httpStatus r)
                  (if 500 \<le> httpStatus r then ''Server error - retry may succeed''
                   else ''Check request parameters'')), w1)
             else
               (case bodyJson r of
                  Inl e \<Rightarrow> if errName e = ''AbortError''
                           then (Inr (timeoutResult (timeoutMs client)), w1) else (Inl e, w1)
                | Inr d \<Rightarrow>
                    if bodySuccess d
                    then (Inr \<lparr>success = True, data = bodyData d, error = None, errorCode = None,
                               retryable = None, suggestion = None\<rparr>, w1)
                    else (Inr (failure
                            (orElse (bodyError d) (orElse (bodyMessage d) ''Unknown error from tool''))
                            TOOL_EXECUTION_FAILED False
                            ''Check parameters or try alternative approach''), w1)))"

text \<open>The retry configuration that \<^verbatim>\<open>execute\<close> passes, merged over the defaults.\<close>

definition toolRetryConfig :: "JsError RetryConfig" where
  "toolRetryConfig =
     DEFAULT_RETRY_CONFIG
       \<lparr>maxAttempts := 2, initialDelayMs := 500,
        retryOn := (\<lambda>e. str_includes (errMessage e) ''timeout''
                         \<or> str_includes (errMessage e) ''network'')\<rparr>"

text \<open>
  \<^verbatim>\<open>ToolClient.execute\<close>.  \<open>t0\<close> is the clock when the circuit is consulted and \<open>t1\<close> the
  clock when the outcome of the request is recorded.
\<close>

definition execute ::
  "ToolClient \<Rightarrow> ToolDefinition list \<Rightarrow> Network \<Rightarrow> string \<Rightarrow> Params \<Rightarrow> int \<Rightarrow> int \<Rightarrow> ToolWorld
     \<Rightarrow> ToolCallResult \<times> ToolWorld"
where
  "execute client catalogue net h ps t0 t1 w =
     (case getToolByHandle catalogue h of
        None \<Rightarrow> (notFoundResult h, w)
      | Some tool \<Rightarrow>
          (let validation = validateParams tool ps in
           if \<not> valid validation then (validationFailedResult validation, w)
           else
             (let (allowed, cb1) = canExecute (breaker w) h t0 in
              if \<not> allowed then (circuitOpenResult h, w\<lparr>breaker := cb1\<rparr>)
              else
                (let run = withRetry toolRetryConfig (makeRequest client net (endpoint tool) h ps)
                             (w\<lparr>breaker := cb1\<rparr>);
                     w2 = final run
                 in case outcome run of
                      Inr response \<Rightarrow>
                        (response,
                         w2\<lparr>breaker := (if success response
                                         then recordSuccess (breaker w2) h t1
                                         else recordFailure (breaker w2) h t1)\<rparr>)
                    | Inl thrown \<Rightarrow>
                        (networkErrorResult
                           (case thrown of Some e \<Rightarrow> errMessage e | None \<Rightarrow> ''Unknown error''),
                         w2\<lparr>breaker := recordFailure (breaker w2) h t1\<rparr>)))))"

subsection \<open>Schema violations in the words of the specification\<close>

text \<open>
  A parameter of the schema is violated by a call when it is required and missing, or
  present with a value of the wrong type, or present with a value outside its enumeration.
\<close>

definition typeMismatch :: "ToolParam \<Rightarrow> jsval \<Rightarrow> bool" where
  "typeMismatch param v =
     ((paramType param = ''string'' \<and> typeof v \<noteq> ''string'')
      \<or> (paramType param = ''number'' \<and> typeof v \<noteq> ''number'')
      \<or> (paramType param = ''boolean'' \<and> typeof v \<noteq> ''boolean'')
      \<or> (paramType param = ''array'' \<and> \<not> isArray v)
      \<or> (paramType param = ''object'' \<and> (typeof v \<noteq> ''object'' \<or> v = JNull \<or> isArray v)))"

definition enumViolation :: "ToolParam \<Rightarrow> jsval \<Rightarrow> bool" where
  "enumViolation param v =
     (case paramEnum param of Some members \<Rightarrow> \<not> enumIncludes members v | None \<Rightarrow> False)"

definition violates :: "Params \<Rightarrow> ToolParam \<Rightarrow> bool" where
  "violates ps param =
     (case ps (paramName param) of
        None \<Rightarrow> required param
      | Some v \<Rightarrow> typeMismatch param v \<or> enumViolation param v)"

definition failsValidation :: "ToolDefinition \<Rightarrow> Params \<Rightarrow> bool" where
  "failsValidation tool ps = list_ex (violates ps) (toolParams tool)"

section \<open>Memory store (src/mas/memory.ts)\<close>

datatype Role = Customer | Agent | System

record Message =
  role :: Role
  content :: string
  timestamp :: string
  metadata :: "jsval option"

text \<open>The field \<^verbatim>\<open>timestamp\<close> of a tool call is \<open>calledAt\<close> here.\<close>

record ToolCall =
  toolHandle :: string
  params :: Params
  result :: ToolCallResult
  calledAt :: string

datatype SessionStatus = Active | Escalated | Resolved

record SessionContext =
  orderHistory :: "jsval option"
  subscriptionStatus :: "jsval option"
  currentOrder :: "jsval option"
  mentionedOrderNumbers :: "string list"
  mentionedProducts :: "string list"
  currentAgent :: string
  previousAgents :: "string list"
  intentHistory :: "string list"
  escalated :: bool
  escalationReason :: "string option"
  escalationSummary :: "jsval option"

text \<open>The fields \<^verbatim>\<open>id\<close> and \<^verbatim>\<open>context\<close> of a session are \<open>session_id\<close> and
  \<open>sessionContext\<close> here.\<close>

record Session =
  session_id :: string
  customerId :: string
  customerEmail :: string
  customerFirstName :: string
  customerLastName :: string
  shopifyCustomerId :: string
  startedAt :: string
  lastActivity :: string
  status :: SessionStatus
  messages :: "Message list"
  toolCalls :: "ToolCall list"
  sessionContext :: SessionContext

record MemoryStore =
  sessions :: "string \<rightharpoonup> Session"

record SessionStartParams =
  startEmail :: string
  startFirstName :: string
  startLastName :: string
  startShopifyCustomerId :: string

text \<open>
  Time stamps are the strings of \<^verbatim>\<open>new Date().toISOString()\<close>; every operation takes the
  current one as the argument \<open>now\<close>.  The identifier that \<^verbatim>\<open>generateSessionId\<close> builds from
  the clock and \<^verbatim>\<open>Math.random\<close> is the argument \<open>newId\<close> of \<^verbatim>\<open>startSession\<close>.
\<close>

definition startSession ::
  "MemoryStore \<Rightarrow> SessionStartParams \<Rightarrow> string \<Rightarrow> string \<Rightarrow> Session \<times> MemoryStore"
where
  "startSession store p newId now =
     (let session =
        \<lparr>session_id = newId, customerId = startShopifyCustomerId p,
         customerEmail = startEmail p, customerFirstName = startFirstName p,
         customerLastName = startLastName p, shopifyCustomerId = startShopifyCustomerId p,
         startedAt = now, lastActivity = now, status = Active, messages = [], toolCalls = [],
         sessionContext =
           \<lparr>orderHistory = None, subscriptionStatus = None, currentOrder = None,
            mentionedOrderNumbers = [], mentionedProducts = [], currentAgent = [],
            previousAgents = [], intentHistory = [], escalated = False,
            escalationReason = None, escalationSummary = None\<rparr>\<rparr>
      in (session, store\<lparr>sessions := (sessions store)(newId \<mapsto> session)\<rparr>))"

definition getSession :: "MemoryStore \<Rightarrow> string \<Rightarrow> Session option" where
  "getSession store sessionId = sessions store sessionId"

text \<open>The \<^verbatim>\<open>Error\<close> thrown by \<^verbatim>\<open>throw new Error(`Session not found: ${sessionId}`)\<close>.\<close>

definition sessionNotFound :: "string \<Rightarrow> JsError" where
  "sessionNotFound sessionId =
     \<lparr>errName = ''Error'', errMessage = ''Session not found: '' @ sessionId, masRetryable = None\<rparr>"

subsection \<open>Entity extraction\<close>

text \<open>
  The matches of \<^verbatim>\<open>/#\d{4,10}|#NP\d{4,10}|NP\d{4,10}/gi\<close> in a text, from left to right
  and without overlap.  At each position the alternatives are tried in their order; the
  digit run is greedy and takes at most ten digits; after a match the scan resumes behind
  it, otherwise at the next character.
\<close>

definition isDigit :: "char \<Rightarrow> bool" where
  "isDigit c = (c \<in> set ''0123456789'')"

definition digitRun :: "string \<Rightarrow> string" where
  "digitRun s = take 10 (takeWhile isDigit s)"

definition isNP :: "char \<Rightarrow> char \<Rightarrow> bool" where
  "isNP n p = ((n = CHR ''N'' \<or> n = CHR ''n'') \<and> (p = CHR ''P'' \<or> p = CHR ''p''))"

fun matchNP :: "string \<Rightarrow> string option" where
  "matchNP (n # p # rest) =
     (if isNP n p \<and> 4 \<le> length (digitRun rest) then Some (n # p # digitRun rest) else None)"
| "matchNP s = None"

fun matchAt :: "string \<Rightarrow> string option" where
  "matchAt [] = None"
| "matchAt (c # rest) =
     (if c = CHR ''#'' then
        (if 4 \<le> length (digitRun rest) then Some (c # digitRun rest)
         else map_option (\<lambda>m. c # m) (matchNP rest))
      else matchNP (c # rest))"

text \<open>\<open>scanFrom k s\<close>: the matches in \<open>s\<close> when the next \<open>k\<close> characters belong to the
  previous match.\<close>

fun scanFrom :: "nat \<Rightarrow> string \<Rightarrow> string list" where
  "scanFrom k [] = []"
| "scanFrom (Suc k) (c # cs) = scanFrom k cs"
| "scanFrom 0 (c # cs) =
     (case matchAt (c # cs) of
        Some m \<Rightarrow> m # scanFrom (length m - 1) cs
      | None \<Rightarrow> scanFrom 0 cs)"

definition orderMatches :: "string \<Rightarrow> string list" where
  "orderMatches s = scanFrom 0 s"

text \<open>\<^verbatim>\<open>match.startsWith('#') ? match : `#${match}`\<close>.\<close>

definition normalizeMatch :: "string \<Rightarrow> string" where
  "normalizeMatch m = (if startsWith m ''#'' then m else CHR ''#'' # m)"

text \<open>The loop over the matches in \<^verbatim>\<open>extractEntities\<close>: a match is pushed as it was
  written unless it, or it with a leading \<^verbatim>\<open>#\<close>, is already recorded.\<close>

fun recordMatches :: "string list \<Rightarrow> string list \<Rightarrow> string list" where
  "recordMatches mentioned [] = mentioned"
| "recordMatches mentioned (m # ms) =
     (let normalized = normalizeMatch m in
      if normalized \<notin> set mentioned \<and> m \<notin> set mentioned
      then recordMatches (mentioned @ [m]) ms
      else recordMatches mentioned ms)"

declare recordMatches.simps(2) [simp del]

definition extractEntities :: "Session \<Rightarrow> string \<Rightarrow> Session" where
  "extractEntities session c =
     session\<lparr>sessionContext := (sessionContext session)
       \<lparr>mentionedOrderNumbers :=
          recordMatches (mentionedOrderNumbers (sessionContext session)) (orderMatches c)\<rparr>\<rparr>"

subsection \<open>Mutators and queries\<close>

definition addMessage ::
  "MemoryStore \<Rightarrow> string \<Rightarrow> Role \<Rightarrow> string \<Rightarrow> jsval option \<Rightarrow> string \<Rightarrow> JsError + MemoryStore"
where
  "addMessage store sessionId r c md now =
     (case sessions store sessionId of
        None \<Rightarrow> Inl (sessionNotFound sessionId)
      | Some session \<Rightarrow>
          (let s1 = session\<lparr>messages := messages session @
                      [\<lparr>role = r, content = c, timestamp = now, metadata = md\<rparr>],
                    lastActivity := now\<rparr>;
               s2 = (if r = Customer then extractEntities s1 c else s1)
           in Inr (store\<lparr>sessions := (sessions store)(sessionId \<mapsto> s2)\<rparr>)))"

definition cacheToolResult :: "Session \<Rightarrow> string \<Rightarrow> ToolCallResult \<Rightarrow> Session" where
  "cacheToolResult session h res =
     (case data res of
        None \<Rightarrow> session
      | Some d \<Rightarrow>
          if \<not> success res \<or> \<not> truthy d then session
          else
            (let s1 = (if h = ''shopify_get_customer_orders''
                       then session\<lparr>sessionContext := (sessionContext session)\<lparr>orderHistory := getProp d ''orders''\<rparr>\<rparr>
                       else session);
                 s2 = (if h = ''skio_get_subscription_status''
                       then s1\<lparr>sessionContext := (sessionContext s1)\<lparr>subscriptionStatus := Some d\<rparr>\<rparr>
                       else s1)
             in if h = ''shopify_get_order_details''
                then s2\<lparr>sessionContext := (sessionContext s2)\<lparr>currentOrder := Some d\<rparr>\<rparr>
                else s2))"

definition recordToolCall ::
  "MemoryStore \<Rightarrow> string \<Rightarrow> string \<Rightarrow> Params \<Rightarrow> ToolCallResult \<Rightarrow> string \<Rightarrow> JsError + MemoryStore"
where
  "recordToolCall store sessionId h ps res now =
     (case sessions store sessionId of
        None \<Rightarrow> Inl (sessionNotFound sessionId)
      | Some session \<Rightarrow>
          (let s1 = session\<lparr>toolCalls := toolCalls session @
                      [\<lparr>toolHandle = h, params = ps, result = res, calledAt = now\<rparr>],
                    lastActivity := now\<rparr>
           in Inr (store\<lparr>sessions := (sessions store)(sessionId \<mapsto> cacheToolResult s1 h res)\<rparr>)))"

definition escalate ::
  "MemoryStore \<Rightarrow> string \<Rightarrow> string \<Rightarrow> jsval \<Rightarrow> string \<Rightarrow> JsError + MemoryStore"
where
  "escalate store sessionId reason summary now =
     (case sessions store sessionId of
        None \<Rightarrow> Inl (sessionNotFound sessionId)
      | Some session \<Rightarrow>
          Inr (store\<lparr>sessions := (sessions store)(sessionId \<mapsto>
                 session\<lparr>status := Escalated,
                   sessionContext := (sessionContext session)
                     \<lparr>escalated := True, escalationReason := Some reason,
                      escalationSummary := Some summary\<rparr>,
                   lastActivity := now\<rparr>)\<rparr>))"

definition isEscalated :: "MemoryStore \<Rightarrow> string \<Rightarrow> bool" where
  "isEscalated store sessionId =
     (case sessions store sessionId of
        None \<Rightarrow> False
      | Some session \<Rightarrow> escalated (sessionContext session))"

definition setCurrentAgent :: "MemoryStore \<Rightarrow> string \<Rightarrow> string \<Rightarrow> MemoryStore" where
  "setCurrentAgent store sessionId agentId =
     (case sessions store sessionId of
        None \<Rightarrow> store
      | Some session \<Rightarrow>
          (let ctx = sessionContext session;
               ctx1 = (if currentAgent ctx \<noteq> [] \<and> currentAgent ctx \<noteq> agentId
                       then ctx\<lparr>previousAgents := previousAgents ctx @ [currentAgent ctx]\<rparr>
                       else ctx)
           in store\<lparr>sessions := (sessions store)(sessionId \<mapsto>
                session\<lparr>sessionContext := ctx1\<lparr>currentAgent := agentId\<rparr>\<rparr>)\<rparr>))"

definition recordIntent :: "MemoryStore \<Rightarrow> string \<Rightarrow> string \<Rightarrow> MemoryStore" where
  "recordIntent store sessionId intentId =
     (case sessions store sessionId of
        None \<Rightarrow> store
      | Some session \<Rightarrow>
          store\<lparr>sessions := (sessions store)(sessionId \<mapsto>
            session\<lparr>sessionContext := (sessionContext session)
              \<lparr>intentHistory := intentHistory (sessionContext session) @ [intentId]\<rparr>\<rparr>)\<rparr>)"

subsection \<open>Auxiliary notions for stating properties of the store\<close>

text \<open>The recorded order numbers of a session, and its four escalation fields.\<close>

definition mentioned :: "MemoryStore \<Rightarrow> string \<Rightarrow> string list" where
  "mentioned store sessionId =
     (case sessions store sessionId of
        None \<Rightarrow> []
      | Some session \<Rightarrow> mentionedOrderNumbers (sessionContext session))"

definition escalationFields ::
  "MemoryStore \<Rightarrow> string \<Rightarrow> (SessionStatus \<times> bool \<times> string option \<times> jsval option) option" where
  "escalationFields store sessionId =
     map_option (\<lambda>s. (status s, escalated (sessionContext s), escalationReason (sessionContext s),
                      escalationSummary (sessionContext s)))
       (sessions store sessionId)"

section \<open>Tracer (src/mas/tracing.ts)\<close>

text \<open>
  The timeline and the summary of a session trace.  Spans are not used by the message
  pipeline and are left out, as is the random identifier of an event.  The log level is
  the constant \<^verbatim>\<open>'standard'\<close>, so message contents are cut to 100 characters and an
  escalation summary is traced by its keys.
\<close>

datatype TraceEventType = MessageEvent | ToolCallEvent | RoutingEvent | EscalationEvent | ErrorEvent

record TraceEvent =
  eventSession :: string
  eventTime :: string
  eventType :: TraceEventType
  eventData :: jsval

record TraceSummary =
  messageCount :: nat
  toolCallCount :: nat
  successfulToolCalls :: nat
  failedToolCalls :: nat
  summaryEscalated :: bool
  visitedAgents :: "string list"

record SessionTrace =
  timeline :: "TraceEvent list"
  summary :: TraceSummary

record Tracer =
  traces :: "string \<rightharpoonup> SessionTrace"

definition initSession :: "Tracer \<Rightarrow> string \<Rightarrow> Tracer" where
  "initSession tr sessionId =
     tr\<lparr>traces := (traces tr)(sessionId \<mapsto>
        \<lparr>timeline = [],
         summary = \<lparr>messageCount = 0, toolCallCount = 0, successfulToolCalls = 0,
                    failedToolCalls = 0, summaryEscalated = False, visitedAgents = []\<rparr>\<rparr>)\<rparr>"

text \<open>\<^verbatim>\<open>addEvent\<close> followed by \<^verbatim>\<open>updateSummary\<close>; both do nothing for an unknown session.\<close>

definition appendEvent ::
  "Tracer \<Rightarrow> string \<Rightarrow> TraceEvent \<Rightarrow> (TraceSummary \<Rightarrow> TraceSummary) \<Rightarrow> Tracer" where
  "appendEvent tr sessionId event updater =
     (case traces tr sessionId of
        None \<Rightarrow> tr
      | Some t \<Rightarrow>
          tr\<lparr>traces := (traces tr)(sessionId \<mapsto>
             t\<lparr>timeline := timeline t @ [event], summary := updater (summary t)\<rparr>)\<rparr>)"

fun roleName :: "Role \<Rightarrow> string" where
  "roleName Customer = ''customer''"
| "roleName Agent = ''agent''"
| "roleName System = ''system''"

definition traceMessage :: "Tracer \<Rightarrow> string \<Rightarrow> Role \<Rightarrow> string \<Rightarrow> string \<Rightarrow> Tracer" where
  "traceMessage tr sessionId r c now =
     appendEvent tr sessionId
       \<lparr>eventSession = sessionId, eventTime = now, eventType = MessageEvent,
        eventData = JObj [(''role'', JStr (roleName r)), (''content'', JStr (take 100 c)),
                          (''length'', JNum (of_nat (length c)))]\<rparr>
       (\<lambda>s. s\<lparr>messageCount := messageCount s + 1\<rparr>)"

definition traceRouting :: "Tracer \<Rightarrow> string \<Rightarrow> string \<Rightarrow> string \<Rightarrow> string \<Rightarrow> string \<Rightarrow> Tracer" where
  "traceRouting tr sessionId fromAgent toAgent why now =
     appendEvent tr sessionId
       \<lparr>eventSession = sessionId, eventTime = now, eventType = RoutingEvent,
        eventData = JObj [(''from'', JStr fromAgent), (''to'', JStr toAgent), (''reason'', JStr why)]\<rparr>
       (\<lambda>s. if toAgent \<in> set (visitedAgents s) then s
             else s\<lparr>visitedAgents := visitedAgents s @ [toAgent]\<rparr>)"

text \<open>\<^verbatim>\<open>Object.keys\<close> of a summary.\<close>

fun objectKeys :: "jsval \<Rightarrow> string list" where
  "objectKeys (JObj kvs) = map fst kvs"
| "objectKeys v = []"

definition traceEscalation :: "Tracer \<Rightarrow> string \<Rightarrow> string \<Rightarrow> jsval \<Rightarrow> string \<Rightarrow> Tracer" where
  "traceEscalation tr sessionId why details now =
     appendEvent tr sessionId
       \<lparr>eventSession = sessionId, eventTime = now, eventType = EscalationEvent,
        eventData = JObj [(''reason'', JStr why),
                          (''summary'', JObj [(''keys'', JArr (map JStr (objectKeys details)))])]\<rparr>
       (\<lambda>s. s\<lparr>summaryEscalated := True\<rparr>)"

section \<open>Intent classification (src/meta/intent-extractor/index.ts)\<close>

text \<open>The field \<^verbatim>\<open>keywords\<close> of an intent category is \<open>intentKeywords\<close> here.\<close>

record IntentConfig =
  intentKeywords :: "string list"
  suggestedWorkflow :: string
  priority :: int

text \<open>\<^verbatim>\<open>INTENT_CATEGORIES\<close>, in the order of its keys.\<close>

definition INTENT_CATEGORIES :: "(string \<times> IntentConfig) list" where
  "INTENT_CATEGORIES =
    [(''ESCALATION_REQUEST'',
      \<lparr>intentKeywords = [''speak to human'', ''talk to human'', ''real person'', ''speak to manager'',
                   ''talk to manager'', ''human agent'', ''live agent'',
                   ''customer service representative'', ''speak to supervisor'',
                   ''talk to supervisor'', ''transfer to supervisor'', ''transfer me to'',
                   ''transfer to agent''],
       suggestedWorkflow = ''escalation'', priority = 15\<rparr>),
     (''SUBSCRIPTION_CANCEL'',
      \<lparr>intentKeywords = [''cancel subscription'', ''stop subscription'', ''unsubscribe'',
                   ''cancel my subscription'', ''end subscription'', ''terminate subscription''],
       suggestedWorkflow = ''subscription-cancellation'', priority = 10\<rparr>),
     (''SUBSCRIPTION_PAUSE'',
      \<lparr>intentKeywords = [''pause subscription'', ''pause my subscription'', ''skip next'', ''skip order'',
                   ''skip subscription'', ''delay subscription'', ''hold subscription'',
                   ''skip my next''],
       suggestedWorkflow = ''subscription-pause'', priority = 10\<rparr>),
     (''SUBSCRIPTION_INQUIRY'',
      \<lparr>intentKeywords = [''subscription status'', ''billing date'', ''next subscription'',
                   ''when is my subscription''],
       suggestedWorkflow = ''subscription-management'', priority = 5\<rparr>),
     (''REFUND_REQUEST'',
      \<lparr>intentKeywords = [''refund'', ''money back'', ''get refund'', ''want refund'', ''need refund'',
                   ''full refund''],
       suggestedWorkflow = ''refund-processing'', priority = 8\<rparr>),
     (''RETURN_REQUEST'',
      \<lparr>intentKeywords = [''return'', ''send back'', ''exchange'', ''wrong item'', ''defective'',
                   ''return order''],
       suggestedWorkflow = ''return-processing'', priority = 7\<rparr>),
     (''CANCEL_ORDER'',
      \<lparr>intentKeywords = [''cancel order'', ''cancel my order'', ''dont want order'', ''cancel the order''],
       suggestedWorkflow = ''order-cancellation'', priority = 6\<rparr>),
     (''ORDER_STATUS'',
      \<lparr>intentKeywords = [''where is my order'', ''order status'', ''status of order'', ''tracking'',
                   ''shipped'', ''delivery status'', ''when arrive'', ''what is the status'',
                   ''order tracking'', ''track my order''],
       suggestedWorkflow = ''order-tracking'', priority = 3\<rparr>),
     (''SHIPPING_ADDRESS'',
      \<lparr>intentKeywords = [''change address'', ''update address'', ''wrong address'', ''shipping address'',
                   ''new address''],
       suggestedWorkflow = ''address-update'', priority = 4\<rparr>),
     (''PRODUCT_INQUIRY'',
      \<lparr>intentKeywords = [''product'', ''how to use'', ''ingredient'', ''recommend'', ''which patch''],
       suggestedWorkflow = ''product-information'', priority = 2\<rparr>),
     (''DISCOUNT_REQUEST'',
      \<lparr>intentKeywords = [''discount'', ''coupon'', ''code'', ''promo'', ''deal''],
       suggestedWorkflow = ''discount-handling'', priority = 2\<rparr>),
     (''GENERAL_INQUIRY'',
      \<lparr>intentKeywords = [''question'', ''help'', ''information'', ''tell me''],
       suggestedWorkflow = ''general-support'', priority = 1\<rparr>)]"

text \<open>The classification that routing reads.  The field \<^verbatim>\<open>extractedEntities\<close> is not
  read by the orchestrator and is left out.\<close>

record IntentClassification =
  primary :: string
  secondary :: "string list"
  confidence :: rat

record IntentScore =
  category :: string
  score :: nat
  scorePriority :: int

text \<open>\<^verbatim>\<open>keyword.split(' ').length\<close>.\<close>

definition wordCount :: "string \<Rightarrow> nat" where
  "wordCount keyword = length (splitOn CHR '' '' keyword)"

definition keywordScore :: "string \<Rightarrow> string list \<Rightarrow> nat" where
  "keywordScore txt ks =
     foldl (\<lambda>acc keyword. if str_includes txt (toLowerCase keyword) then acc + wordCount keyword else acc)
       0 ks"

text \<open>
  \<^verbatim>\<open>scores.sort(...)\<close> with the comparator of the source: higher score first, then higher
  priority.  The sort of the JavaScript engine is stable; it is modelled as a stable
  insertion sort.  \<open>precedes a b\<close> says that the comparator puts \<open>a\<close> strictly before \<open>b\<close>.
\<close>

definition precedes :: "IntentScore \<Rightarrow> IntentScore \<Rightarrow> bool" where
  "precedes a b =
     (if score b \<noteq> score a then score b < score a else scorePriority b < scorePriority a)"

fun insertScore :: "IntentScore \<Rightarrow> IntentScore list \<Rightarrow> IntentScore list" where
  "insertScore x [] = [x]"
| "insertScore x (y # ys) = (if precedes y x then y # insertScore x ys else x # y # ys)"

fun sortScores :: "IntentScore list \<Rightarrow> IntentScore list" where
  "sortScores [] = []"
| "sortScores (x # xs) = insertScore x (sortScores xs)"

definition classifyText :: "string \<Rightarrow> IntentClassification" where
  "classifyText txt =
     (let scores = sortScores
            (map (\<lambda>(c, cfg). \<lparr>category = c, score = keywordScore txt (intentKeywords cfg),
                             scorePriority = priority cfg\<rparr>) INTENT_CATEGORIES)
      in case scores of
           best # others \<Rightarrow>
             (let maxScore = (case map_of INTENT_CATEGORIES (category best) of
                                Some cfg \<Rightarrow> foldl (\<lambda>total k. total + wordCount k) 0 (intentKeywords cfg)
                              | None \<Rightarrow> 0)
              in \<lparr>primary = category best,
                  secondary = map category (filter (\<lambda>s. 0 < score s) (take 3 others)),
                  confidence = (if 0 < maxScore then of_nat (score best) / of_nat maxScore else 0)\<rparr>)
         | [] \<Rightarrow> \<lparr>primary = [], secondary = [], confidence = 0\<rparr>)"

text \<open>The last case is never taken: the table of categories is not empty.\<close>

definition classifyMessage :: "string \<Rightarrow> IntentClassification" where
  "classifyMessage message = classifyText (toLowerCase message)"

section \<open>Orchestrator (src/mas/orchestrator/index.ts, src/meta/agent-generator/index.ts)\<close>

subsection \<open>Configuration\<close>

text \<open>
  \<^verbatim>\<open>AgentConfig\<close>, \<^verbatim>\<open>RoutingRule\<close>, \<^verbatim>\<open>EscalationConfig\<close> and the part of \<^verbatim>\<open>MASConfig\<close> that the
  runtime reads, \<^verbatim>\<open>config.orchestrator\<close>.  Renamed fields: \<^verbatim>\<open>id\<close>, \<^verbatim>\<open>name\<close> and
  \<^verbatim>\<open>description\<close> of an agent are \<open>agentId\<close>, \<open>agentName\<close> and \<open>agentDescription\<close>;
  \<^verbatim>\<open>conditions.keywords\<close> of a rule is \<open>ruleKeywords\<close>; \<^verbatim>\<open>conditions\<close> of the escalation
  handler is \<open>escalationTriggers\<close>; \<^verbatim>\<open>agents\<close> and \<^verbatim>\<open>fallbackAgent\<close> of the configuration
  are \<open>configAgents\<close> and \<open>fallbackAgentId\<close>.  Scores and confidences are JavaScript numbers;
  they are modelled as exact rationals.
\<close>

record AgentConfig =
  agentId :: string
  agentName :: string
  agentDescription :: string
  systemPrompt :: string
  tools :: "string list"
  triggers :: "string list"
  boundaries :: "string list"
  escalationConditions :: "string list"

record RuleConditions =
  ruleKeywords :: "string list"
  minConfidence :: rat

record RoutingRule =
  intentId :: string
  targetAgent :: string
  conditions :: RuleConditions

record EscalationConfig =
  escalationTriggers :: "string list"
  customerMessage :: string
  summaryFields :: "string list"

record OrchestratorConfig =
  configAgents :: "AgentConfig list"
  routing :: "RoutingRule list"
  fallbackAgentId :: string
  escalationHandler :: EscalationConfig

record Orchestrator =
  agents :: "string \<rightharpoonup> AgentConfig"
  routingRules :: "RoutingRule list"
  escalationConfig :: EscalationConfig
  fallbackAgent :: "AgentConfig option"

text \<open>The constructor: a later agent with the same id replaces an earlier one in the
  index; the fallback is the configured agent or else the first agent, if there is one.\<close>

definition indexAgents :: "AgentConfig list \<Rightarrow> (string \<rightharpoonup> AgentConfig)" where
  "indexAgents as = foldl (\<lambda>m a. m(agentId a \<mapsto> a)) Map.empty as"

definition newOrchestrator :: "OrchestratorConfig \<Rightarrow> Orchestrator" where
  "newOrchestrator cfg =
     \<lparr>agents = indexAgents (configAgents cfg),
      routingRules = routing cfg,
      escalationConfig = escalationHandler cfg,
      fallbackAgent =
        (case indexAgents (configAgents cfg) (fallbackAgentId cfg) of
           Some a \<Rightarrow> Some a
         | None \<Rightarrow> (case configAgents cfg of a # rest \<Rightarrow> Some a | [] \<Rightarrow> None))\<rparr>"

subsection \<open>The shared state of the message pipeline\<close>

text \<open>
  The memory store and the tracer singletons, and a log of the calls to
  \<^verbatim>\<open>Orchestrator.route\<close> and \<^verbatim>\<open>AgentExecutor.execute\<close> that \<^verbatim>\<open>handleMessage\<close> makes
  (session and message; agent, session and message).
\<close>

datatype Invocation = RouteCall string string | ExecuteCall string string string

record World =
  memoryStore :: MemoryStore
  tracer :: Tracer
  invoked :: "Invocation list"

subsection \<open>Routing\<close>

definition calculateRuleScore :: "string \<Rightarrow> IntentClassification \<Rightarrow> RoutingRule \<Rightarrow> rat" where
  "calculateRuleScore message intent rule =
     (let messageLower = toLowerCase message;
          s1 = foldl (\<lambda>acc keyword. if str_includes messageLower (toLowerCase keyword)
                                     then acc + 2 / 10 else acc)
                 0 (ruleKeywords (conditions rule));
          s2 = (if replaceUnderscores (toLowerCase (primary intent)) = intentId rule
                then s1 + 5 / 10 else s1);
          s3 = (if list_ex (\<lambda>s. replaceUnderscores (toLowerCase s) = intentId rule) (secondary intent)
                then s2 + 2 / 10 else s2)
      in min s3 1)"

definition isRelatedToCurrentAgent :: "IntentClassification \<Rightarrow> AgentConfig \<Rightarrow> bool" where
  "isRelatedToCurrentAgent intent agent =
     (let intentWords = splitOn CHR ''_'' (toLowerCase (primary intent)) in
      list_ex (\<lambda>trigger.
                 list_ex (\<lambda>w. w \<in> set (splitOn CHR '' '' (toLowerCase trigger))) intentWords)
        (triggers agent))"

text \<open>
  The state of the loop over the routing rules: \<^verbatim>\<open>targetAgent\<close> and \<^verbatim>\<open>highestScore\<close>, and
  in addition the rule whose test succeeded last (the source does not store it).
\<close>

record RouteState =
  target :: "AgentConfig option"
  highestScore :: rat
  selectedRule :: "RoutingRule option"

definition ruleStep ::
  "Orchestrator \<Rightarrow> string \<Rightarrow> IntentClassification \<Rightarrow> RouteState \<Rightarrow> RoutingRule \<Rightarrow> RouteState" where
  "ruleStep orch message intent st rule =
     (let sc = calculateRuleScore message intent rule in
      if sc > highestScore st \<and> sc \<ge> minConfidence (conditions rule)
      then \<lparr>target = (case agents orch (targetAgent rule) of Some a \<Rightarrow> Some a | None \<Rightarrow> target st),
            highestScore = sc, selectedRule = Some rule\<rparr>
      else st)"

definition ruleLoop :: "Orchestrator \<Rightarrow> string \<Rightarrow> IntentClassification \<Rightarrow> RouteState" where
  "ruleLoop orch message intent =
     foldl (ruleStep orch message intent)
       \<lparr>target = fallbackAgent orch, highestScore = 0, selectedRule = None\<rparr>
       (routingRules orch)"

text \<open>The continuity check: the session's current agent, when it is set, known and
  related to the intent.\<close>

definition continuityAgent ::
  "Orchestrator \<Rightarrow> Session option \<Rightarrow> IntentClassification \<Rightarrow> AgentConfig option" where
  "continuityAgent orch session intent =
     (case session of
        None \<Rightarrow> None
      | Some s \<Rightarrow>
          if currentAgent (sessionContext s) = [] then None
          else (case agents orch (currentAgent (sessionContext s)) of
                  None \<Rightarrow> None
                | Some a \<Rightarrow> if isRelatedToCurrentAgent intent a then Some a else None))"

record RoutingResult =
  chosenAgent :: AgentConfig
  intent :: IntentClassification
  routingConfidence :: rat

text \<open>Reading \<^verbatim>\<open>targetAgent.id\<close> when there is no agent at all.\<close>

definition noTargetAgent :: JsError where
  "noTargetAgent =
     \<lparr>errName = ''TypeError'', errMessage = ''Cannot read properties of undefined (reading id)'',
      masRetryable = None\<rparr>"

definition route ::
  "Orchestrator \<Rightarrow> string \<Rightarrow> string \<Rightarrow> string \<Rightarrow> World \<Rightarrow> (JsError + RoutingResult) \<times> World" where
  "route orch sessionId message now w =
     (let session = getSession (memoryStore w) sessionId;
          cls = classifyMessage message;
          st = ruleLoop orch message cls;
          chosen = (case continuityAgent orch session cls of Some a \<Rightarrow> Some a | None \<Rightarrow> target st)
      in case chosen of
           None \<Rightarrow> (Inl noTargetAgent, w)
         | Some agent \<Rightarrow>
             (let previousAgent =
                    (case session of
                       None \<Rightarrow> ''none''
                     | Some s \<Rightarrow> if currentAgent (sessionContext s) = [] then ''none''
                                else currentAgent (sessionContext s));
                  tr = (if previousAgent \<noteq> agentId agent
                        then traceRouting (tracer w) sessionId previousAgent (agentId agent)
                               (primary cls) now
                        else tracer w);
                  store = (case session of
                             None \<Rightarrow> memoryStore w
                           | Some s \<Rightarrow>
                               recordIntent
                                 (setCurrentAgent (memoryStore w) sessionId (agentId agent))
                                 sessionId (primary cls))
              in (Inr \<lparr>chosenAgent = agent, intent = cls,
                       routingConfidence =
                         (if highestScore st \<noteq> 0 then highestScore st else confidence cls)\<rparr>,
                  w\<lparr>memoryStore := store, tracer := tr\<rparr>)))"

subsection \<open>Escalation\<close>

record EscalationResult =
  resultEscalated :: bool
  reason :: "string option"
  resultMessage :: "string option"
  internalSummary :: "jsval option"

definition escalatedMessage :: string where
  "escalatedMessage = ''This issue has been escalated to our team. A specialist will respond shortly.''"

definition determineEscalationReason :: "string \<Rightarrow> Session \<Rightarrow> string" where
  "determineEscalationReason message session =
     (let messageLower = toLowerCase message in
      if str_includes messageLower ''human'' \<or> str_includes messageLower ''speak to''
         \<or> str_includes messageLower ''real person'' \<or> str_includes messageLower ''manager''
         \<or> str_includes messageLower ''supervisor'' \<or> str_includes messageLower ''transfer''
      then ''customer explicitly requested human agent''
      else if length (intentHistory (sessionContext session)) > 3
      then ''complex issue requiring multiple intents''
      else if length (filter (\<lambda>t. \<not> success (result t)) (toolCalls session)) \<ge> 2
      then ''multiple tool failures during session''
      else ''agent cannot safely proceed'')"

definition buildEscalationSummary :: "Session \<Rightarrow> jsval" where
  "buildEscalationSummary session =
     JObj
       [(''session_id'', JStr (session_id session)),
        (''customer'',
           JObj [(''email'', JStr (customerEmail session)),
                 (''name'', JStr (customerFirstName session @ '' '' @ customerLastName session)),
                 (''shopify_id'', JStr (shopifyCustomerId session))]),
        (''issue_type'',
           JStr (case intentHistory (sessionContext session) of
                   [] \<Rightarrow> ''unknown''
                 | first # rest \<Rightarrow> if first = [] then ''unknown'' else first)),
        (''message_count'', JNum (of_nat (length (messages session)))),
        (''tool_calls'',
           JArr (map (\<lambda>t. JObj [(''tool'', JStr (toolHandle t)),
                                 (''success'', JBool (success (result t)))])
                   (toolCalls session))),
        (''mentioned_orders'', JArr (map JStr (mentionedOrderNumbers (sessionContext session)))),
        (''attempted_resolution'', JStr (currentAgent (sessionContext session))),
        (''conversation_summary'',
           JArr (map (\<lambda>m. JObj [(''role'', JStr (roleName (role m))),
                                 (''preview'', JStr (take 100 (content m)))])
                   (drop (length (messages session) - 3) (messages session))))]"

text \<open>The two word lists of \<^verbatim>\<open>checkEscalation\<close>.\<close>

definition escalationKeywords :: "string list" where
  "escalationKeywords = [''human'', ''real person'', ''manager'', ''supervisor'', ''live agent'']"

definition escalationPhrases :: "string list" where
  "escalationPhrases = [''speak to'', ''talk to'', ''transfer to'', ''transfer me'']"

text \<open>The derived condition, evaluated for one configured escalation condition;
  \<^verbatim>\<open>new Set(history).size\<close> is the number of distinct entries.\<close>

definition derivedCondition :: "Session \<Rightarrow> string \<Rightarrow> bool" where
  "derivedCondition session condition =
     (str_includes (toLowerCase condition) ''cannot determine''
      \<and> length (intentHistory (sessionContext session)) > 3
      \<and> length (remdups (intentHistory (sessionContext session))) \<ge> 3)"

definition shouldEscalate :: "Orchestrator \<Rightarrow> Session \<Rightarrow> string \<Rightarrow> bool" where
  "shouldEscalate orch session message =
     (let messageLower = toLowerCase message;
          hasEscalationKeyword = list_ex (\<lambda>k. str_includes messageLower k) escalationKeywords;
          hasEscalationTrigger = list_ex (\<lambda>t. str_includes messageLower t) escalationPhrases
      in (hasEscalationKeyword \<or> hasEscalationTrigger)
         \<or> list_ex (derivedCondition session) (escalationTriggers (escalationConfig orch)))"

text \<open>\<^verbatim>\<open>checkEscalation\<close>; the optional third argument, the agent's response, is not read by
  the source.\<close>

definition checkEscalation ::
  "Orchestrator \<Rightarrow> string \<Rightarrow> string \<Rightarrow> string option \<Rightarrow> string \<Rightarrow> World
     \<Rightarrow> (JsError + EscalationResult) \<times> World"
where
  "checkEscalation orch sessionId message agentResponse now w =
     (case getSession (memoryStore w) sessionId of
        None \<Rightarrow>
          (Inr \<lparr>resultEscalated = False, reason = None, resultMessage = None,
                internalSummary = None\<rparr>, w)
      | Some session \<Rightarrow>
          if escalated (sessionContext session)
          then (Inr \<lparr>resultEscalated = True, reason = escalationReason (sessionContext session),
                     resultMessage = Some escalatedMessage, internalSummary = None\<rparr>, w)
          else if shouldEscalate orch session message
          then
            (let why = determineEscalationReason message session;
                 details = buildEscalationSummary session
             in case escalate (memoryStore w) sessionId why details now of
                  Inl e \<Rightarrow> (Inl e, w)
                | Inr store \<Rightarrow>
                    (Inr \<lparr>resultEscalated = True, reason = Some why,
                          resultMessage = Some (customerMessage (escalationConfig orch)),
                          internalSummary = Some details\<rparr>,
                     w\<lparr>memoryStore := store,
                       tracer := traceEscalation (tracer w) sessionId why details now\<rparr>))
          else (Inr \<lparr>resultEscalated = False, reason = None, resultMessage = None,
                     internalSummary = None\<rparr>, w))"

subsection \<open>Auxiliary notions for stating properties of the orchestrator\<close>

text \<open>A message that contains one of the escalation keywords or trigger phrases of
  \<^verbatim>\<open>checkEscalation\<close>; the number of failed tool calls of a session; the result
  \<^verbatim>\<open>{ escalated: false }\<close>.\<close>

definition explicitRequest :: "string \<Rightarrow> bool" where
  "explicitRequest msg =
     (list_ex (\<lambda>k. str_includes (toLowerCase msg) k) escalationKeywords
      \<or> list_ex (\<lambda>t. str_includes (toLowerCase msg) t) escalationPhrases)"

definition failedCalls :: "Session \<Rightarrow> nat" where
  "failedCalls session = length (filter (\<lambda>t. \<not> success (result t)) (toolCalls session))"

definition notEscalated :: EscalationResult where
  "notEscalated = \<lparr>resultEscalated = False, reason = None, resultMessage = None, internalSummary = None\<rparr>"

section \<open>Runtime (src/mas/runtime.ts)\<close>

text \<open>
  The response of \<^verbatim>\<open>handleMessage\<close>; its fields \<^verbatim>\<open>escalated\<close> and \<^verbatim>\<open>escalationSummary\<close> are
  \<open>responseEscalated\<close> and \<open>responseSummary\<close> here.  The response of an agent executor is
  read only through its \<^verbatim>\<open>message\<close>, here \<open>replyMessage\<close>.
\<close>

record MessageResponse =
  sessionId :: string
  message :: string
  responseEscalated :: bool
  responseSummary :: "jsval option"

record AgentResponse =
  replyMessage :: string

text \<open>
  \<^verbatim>\<open>AgentExecutor.execute\<close> runs the language model and the tools; it is an argument of the
  model: any function from the agent, the session, the message and the world to a thrown
  error or a response, and the next world.
\<close>

type_synonym Executor =
  "AgentConfig \<Rightarrow> string \<Rightarrow> string \<Rightarrow> World \<Rightarrow> (JsError + AgentResponse) \<times> World"

text \<open>The runtime holds the orchestrator and one executor per configured agent, indexed
  by the agent's id.\<close>

record MASRuntime =
  orchestrator :: Orchestrator
  executors :: "string \<rightharpoonup> AgentConfig"

definition createMASRuntime :: "OrchestratorConfig \<Rightarrow> MASRuntime" where
  "createMASRuntime cfg =
     \<lparr>orchestrator = newOrchestrator cfg, executors = indexAgents (configAgents cfg)\<rparr>"

definition noExecutor :: "string \<Rightarrow> JsError" where
  "noExecutor a =
     \<lparr>errName = ''Error'', errMessage = ''No executor for agent: '' @ a, masRetryable = None\<rparr>"

definition handleMessage ::
  "MASRuntime \<Rightarrow> Executor \<Rightarrow> string \<Rightarrow> string \<Rightarrow> string \<Rightarrow> World
     \<Rightarrow> (JsError + MessageResponse) \<times> World"
where
  "handleMessage rt exec sid msg now w =
     (case getSession (memoryStore w) sid of
        None \<Rightarrow> (Inl (sessionNotFound sid), w)
      | Some session \<Rightarrow>
          if isEscalated (memoryStore w) sid
          then (Inr \<lparr>sessionId = sid, message = escalatedMessage, responseEscalated = True,
                     responseSummary = escalationSummary (sessionContext session)\<rparr>, w)
          else
            (case addMessage (memoryStore w) sid Customer msg None now of
               Inl e \<Rightarrow> (Inl e, w)
             | Inr store1 \<Rightarrow>
                 (let w1 = w\<lparr>memoryStore := store1,
                              tracer := traceMessage (tracer w) sid Customer msg now\<rparr>
                  in case checkEscalation (orchestrator rt) sid msg None now w1 of
                       (Inl e, w2) \<Rightarrow> (Inl e, w2)
                     | (Inr escalationCheck, w2) \<Rightarrow>
                         if resultEscalated escalationCheck
                         then (Inr \<lparr>sessionId = sid,
                                    message = orElse (resultMessage escalationCheck)
                                                ''Escalating to our team.'',
                                    responseEscalated = True,
                                    responseSummary = internalSummary escalationCheck\<rparr>, w2)
                         else
                           (case route (orchestrator rt) sid msg now
                                   (w2\<lparr>invoked := invoked w2 @ [RouteCall sid msg]\<rparr>) of
                              (Inl e, w3) \<Rightarrow> (Inl e, w3)
                            | (Inr routed, w3) \<Rightarrow>
                                (case executors rt (agentId (chosenAgent routed)) of
                                   None \<Rightarrow> (Inl (noExecutor (agentId (chosenAgent routed))), w3)
                                 | Some agent \<Rightarrow>
                                     (case exec agent sid msg
                                             (w3\<lparr>invoked := invoked w3 @
                                                   [ExecuteCall (agentId agent) sid msg]\<rparr>) of
                                        (Inl e, w4) \<Rightarrow> (Inl e, w4)
                                      | (Inr response, w4) \<Rightarrow>
                                          (case checkEscalation (orchestrator rt) sid msg
                                                  (Some (replyMessage response)) now w4 of
                                             (Inl e, w5) \<Rightarrow> (Inl e, w5)
                                           | (Inr postCheck, w5) \<Rightarrow>
                                               if resultEscalated postCheck
                                               then (Inr \<lparr>sessionId = sid,
                                                          message = orElse (resultMessage postCheck)
                                                                      (replyMessage response),
                                                          responseEscalated = True,
                                                          responseSummary = internalSummary postCheck\<rparr>,
                                                     w5)
                                               else (Inr \<lparr>sessionId = sid,
                                                          message = replyMessage response,
                                                          responseEscalated = False,
                                                          responseSummary = None\<rparr>, w5))))))))"

subsection \<open>Auxiliary notion for stating properties of a turn\<close>


section \<open>Concrete inputs\<close>

text \<open>Inputs at which the properties below are instantiated.\<close>

text \<open>A function that fails on every call with a retryable error and counts its calls.\<close>

definition countingFailure :: "nat \<Rightarrow> (JsError + unit) \<times> nat" where
  "countingFailure n =
     (Inl \<lparr>errName = ''Error'', errMessage = showNat n, masRetryable = Some True\<rparr>, Suc n)"

text \<open>The tool circuit breaker after three failures of one tool at the times 1000, 2000 and
  3000, and after the probing call at time 18000.\<close>

definition orderTool :: string where
  "orderTool = ''shopify_get_order_details''"

definition threeFailures :: CircuitBreaker where
  "threeFailures = foldl (\<lambda>b t. recordFailure b orderTool t) toolCircuitBreaker [1000, 2000, 3000]"

definition probing :: CircuitBreaker where
  "probing = snd (canExecute threeFailures orderTool 18000)"

text \<open>A store with one session, and that session after the same customer message was
  recorded once and twice.\<close>

definition emptyStore :: MemoryStore where
  "emptyStore = \<lparr>sessions = Map.empty\<rparr>"

definition demoCustomer :: SessionStartParams where
  "demoCustomer = \<lparr>startEmail = ''sarah@example.com'', startFirstName = ''Sarah'',
                    startLastName = ''Jones'', startShopifyCustomerId = ''cust_4f9b2d''\<rparr>"

definition demoSid :: string where
  "demoSid = ''session_1767225600000_k3x9qa''"

definition demoStore :: MemoryStore where
  "demoStore = snd (startSession emptyStore demoCustomer demoSid ''2026-01-01T00:00:00.000Z'')"

definition twoOrders :: string where
  "twoOrders = ''Orders NP7654321 and #1234567 are late, again: #1234567''"

definition storeOf :: "JsError + MemoryStore \<Rightarrow> MemoryStore" where
  "storeOf r = (case r of Inr store \<Rightarrow> store | Inl e \<Rightarrow> emptyStore)"

definition toldOnce :: MemoryStore where
  "toldOnce = storeOf (addMessage demoStore demoSid Customer twoOrders None ''2026-01-01T00:00:05.000Z'')"

definition toldTwice :: MemoryStore where
  "toldTwice = storeOf (addMessage toldOnce demoSid Customer twoOrders None ''2026-01-01T00:00:09.000Z'')"

text \<open>The session escalated once, and escalated a second time with another reason.\<close>

definition escalatedOnce :: MemoryStore where
  "escalatedOnce = storeOf (escalate demoStore demoSid ''customer explicitly requested human agent''
       (JObj [(''session_id'', JStr demoSid)]) ''2026-01-01T00:02:00.000Z'')"

definition escalatedAgain :: MemoryStore where
  "escalatedAgain = storeOf (escalate escalatedOnce demoSid ''agent cannot safely proceed''
       (JObj []) ''2026-01-01T00:03:00.000Z'')"

text \<open>Two entries of the tool catalogue, a client, a network that answers every request
  with success, a refund call with a method outside the enumeration, an order lookup, and
  two worlds: one with the untouched breaker and one in which the circuit of the order
  lookup tool is open.\<close>

definition shopify_get_order_details :: ToolDefinition where
  "shopify_get_order_details =
     \<lparr>handle = ''shopify_get_order_details'', endpoint = ''/hackhaton/get_order_details'',
      toolParams = [\<lparr>paramName = ''orderId'', paramType = ''string'', required = True,
                     paramEnum = None\<rparr>]\<rparr>"

definition shopify_refund_order :: ToolDefinition where
  "shopify_refund_order =
     \<lparr>handle = ''shopify_refund_order'', endpoint = ''/hackhaton/refund_order'',
      toolParams =
        [\<lparr>paramName = ''orderId'', paramType = ''string'', required = True, paramEnum = None\<rparr>,
         \<lparr>paramName = ''refundMethod'', paramType = ''string'', required = True,
          paramEnum = Some [''ORIGINAL_PAYMENT_METHODS'', ''STORE_CREDIT'']\<rparr>]\<rparr>"

definition demoCatalogue :: "ToolDefinition list" where
  "demoCatalogue = [shopify_get_order_details, shopify_refund_order]"

definition demoClient :: ToolClient where
  "demoClient = \<lparr>apiUrl = ''https://lookfor-backend.ngrok.app/v1/api'', timeoutMs = 30000\<rparr>"

definition okNetwork :: Network where
  "okNetwork n request =
     Responded \<lparr>httpStatus = 200, retryAfter = Some 60, bodyText = ''{\"success\":true}'',
                bodyJson = Inr \<lparr>bodySuccess = True, bodyData = None, bodyError = None,
                                bodyMessage = None\<rparr>\<rparr>"

definition cashRefund :: Params where
  "cashRefund = [''orderId'' \<mapsto> JStr ''gid://shopify/Order/5531'', ''refundMethod'' \<mapsto> JStr ''CASH'']"

definition orderLookup :: Params where
  "orderLookup = [''orderId'' \<mapsto> JStr ''#1234567'']"

definition freshWorld :: ToolWorld where
  "freshWorld = \<lparr>breaker = toolCircuitBreaker, sent = []\<rparr>"

definition trippedWorld :: ToolWorld where
  "trippedWorld = \<lparr>breaker = threeFailures, sent = []\<rparr>"

text \<open>A configuration with a refund agent, the general support agent as fallback, one
  routing rule and the default escalation rules; a variant whose escalation conditions do
  not mention \<^verbatim>\<open>cannot determine\<close>; a variant whose rule demands a confidence of 0.95.\<close>

definition generalAgent :: AgentConfig where
  "generalAgent =
     \<lparr>agentId = ''general-support-agent'', agentName = ''General Support'',
      agentDescription = ''Handles general inquiries and routes to specialists'',
      systemPrompt = ''You are a General Support agent for default.'',
      tools = [''shopify_get_related_knowledge_source'', ''shopify_get_product_details''],
      triggers = [''general inquiry'', ''unclear intent''],
      boundaries = [],
      escalationConditions = [''cannot determine customer need'', ''customer frustrated'']\<rparr>"

definition refundAgent :: AgentConfig where
  "refundAgent =
     \<lparr>agentId = ''refund-processing-agent'', agentName = ''Refund Processing'',
      agentDescription = ''Processes refunds for eligible orders'',
      systemPrompt = ''You are a Refund Processing specialist for default.'',
      tools = [''shopify_get_order_details'', ''shopify_refund_order''],
      triggers = [''customer asks for a refund''],
      boundaries = [''never refund more than the order total''],
      escalationConditions = [''refund outside policy window'']\<rparr>"

definition defaultEscalation :: EscalationConfig where
  "defaultEscalation =
     \<lparr>escalationTriggers = [''customer explicitly requests human'',
                             ''agent cannot determine correct action'',
                             ''sensitive financial dispute'', ''legal or regulatory concern''],
      customerMessage = ''I am escalating this to our team for further review. A specialist will respond shortly.'',
      summaryFields = [''issue_type'', ''customer_sentiment'', ''attempted_resolution'',
                       ''blocking_reason'']\<rparr>"

definition refundRule :: RoutingRule where
  "refundRule =
     \<lparr>intentId = ''refund-request'', targetAgent = ''refund-processing-agent'',
      conditions = \<lparr>ruleKeywords = [''refund'', ''money back'', ''get refund'', ''want refund'',
                                    ''need refund'', ''full refund''],
                    minConfidence = 3 / 10\<rparr>\<rparr>"

definition demoConfig :: OrchestratorConfig where
  "demoConfig =
     \<lparr>configAgents = [refundAgent, generalAgent], routing = [refundRule],
      fallbackAgentId = ''general-support-agent'', escalationHandler = defaultEscalation\<rparr>"

definition demoOrchestrator :: Orchestrator where
  "demoOrchestrator = newOrchestrator demoConfig"


definition strictRule :: RoutingRule where
  "strictRule = refundRule\<lparr>conditions := (conditions refundRule)\<lparr>minConfidence := 19 / 20\<rparr>\<rparr>"

definition strictOrchestrator :: Orchestrator where
  "strictOrchestrator = newOrchestrator (demoConfig\<lparr>routing := [strictRule]\<rparr>)"

text \<open>A third agent for returns, a rule for it that also lists the word refund and asks
  for a confidence of 0.2, and a configuration with that rule before the strict one.\<close>

definition returnsAgent :: AgentConfig where
  "returnsAgent =
     \<lparr>agentId = ''return-processing-agent'', agentName = ''Return Processing'',
      agentDescription = ''Arranges returns and exchanges'',
      systemPrompt = ''You are a Return Processing specialist for default.'',
      tools = [''shopify_get_order_details'', ''shopify_create_return''],
      triggers = [''customer wants to send an item back''],
      boundaries = [],
      escalationConditions = [''item outside return window'']\<rparr>"

definition returnRule :: RoutingRule where
  "returnRule =
     \<lparr>intentId = ''return-request'', targetAgent = ''return-processing-agent'',
      conditions = \<lparr>ruleKeywords = [''return'', ''send back'', ''refund''],
                    minConfidence = 2 / 10\<rparr>\<rparr>"

definition mixedOrchestrator :: Orchestrator where
  "mixedOrchestrator =
     newOrchestrator (demoConfig\<lparr>configAgents := [refundAgent, returnsAgent, generalAgent],
                                  routing := [returnRule, strictRule]\<rparr>)"


text \<open>The pipeline state around a store, with a trace for the demo session and an empty
  call log.\<close>

definition worldOf :: "MemoryStore \<Rightarrow> World" where
  "worldOf store =
     \<lparr>memoryStore = store, tracer = initSession \<lparr>traces = Map.empty\<rparr> demoSid, invoked = []\<rparr>"

text \<open>The demo session after two failed tool calls; two customer messages.\<close>

definition orderNotFound :: ToolCallResult where
  "orderNotFound = failure ''Order not found'' TOOL_EXECUTION_FAILED False
                     ''Check parameters or try alternative approach''"

definition failedTwice :: MemoryStore where
  "failedTwice =
     storeOf (recordToolCall
       (storeOf (recordToolCall demoStore demoSid orderTool orderLookup orderNotFound
                   ''2026-01-01T00:00:20.000Z''))
       demoSid orderTool orderLookup orderNotFound ''2026-01-01T00:00:40.000Z'')"

definition anyUpdate :: string where
  "anyUpdate = ''Any update on my order?''"

definition wantRefund :: string where
  "wantRefund = ''I want a refund''"




definition withRefundAgent :: MemoryStore where
  "withRefundAgent = setCurrentAgent demoStore demoSid ''refund-processing-agent''"

text \<open>An executor whose language model answers with a fixed text and requests no tool:
  the end of \<^verbatim>\<open>AgentExecutor.execute\<close>, which records and traces the agent message.\<close>

definition replyingExecutor :: "string \<Rightarrow> string \<Rightarrow> Executor" where
  "replyingExecutor reply now agent sid msg w =
     (case getSession (memoryStore w) sid of
        None \<Rightarrow> (Inl (sessionNotFound sid), w)
      | Some session \<Rightarrow>
          (case addMessage (memoryStore w) sid Agent reply None now of
             Inl e \<Rightarrow> (Inl e, w)
           | Inr store \<Rightarrow>
               (Inr \<lparr>replyMessage = reply\<rparr>,
                w\<lparr>memoryStore := store, tracer := traceMessage (tracer w) sid Agent reply now\<rparr>)))"

definition demoRuntime :: MASRuntime where
  "demoRuntime = createMASRuntime demoConfig"


definition lookingIntoIt :: Executor where
  "lookingIntoIt = replyingExecutor ''Let me check that refund for you.'' ''2026-01-01T00:00:31.000Z''"

section \<open>Properties\<close>

subsection \<open>Retry\<close>

lemma retryLoop_always_failing:
  "(\<And>s. \<exists>e. fst (fn s) = Inl e \<and> retryOn cfg e) \<Longrightarrow> attempt \<le> maxAttempts cfg \<Longrightarrow>
   k = nat (maxAttempts cfg - attempt) \<Longrightarrow>
   retryLoop cfg fn attempt delay lastError s n slept =
     \<lparr>outcome = (case fst (fn (stateAfter fn k s)) of Inl e \<Rightarrow> Inl (Some e) | Inr v \<Rightarrow> Inr v),
      final = stateAfter fn (Suc k) s,
      invocations = n + Suc k,
      sleeps = slept @ backoffDelays cfg delay k\<rparr>"
proof (induction cfg fn attempt delay lastError s n slept arbitrary: k rule: retryLoop.induct)
  case (1 cfg fn attempt delay lastError s n slept)
  obtain e where e: "fst (fn s) = Inl e" "retryOn cfg e"
    using "1.prems"(1) by blast
  show ?case
  proof (cases "attempt = maxAttempts cfg")
    case True
    then have "k = 0" using "1.prems" by simp
    then show ?thesis using e True by (subst retryLoop.simps) simp
  next
    case False
    with "1.prems" have lt: "attempt + 1 \<le> maxAttempts cfg" by simp
    obtain k' where k': "k = Suc k'" "k' = nat (maxAttempts cfg - (attempt + 1))"
      using "1.prems" False by (cases k) (auto simp: nat_diff_distrib)
    have ne: "\<not> (\<not> retryOn cfg e \<or> attempt = maxAttempts cfg)" using e False by simp
    note IH = "1.IH"[OF "1.prems"(2) e(1) ne "1.prems"(1) lt k'(2)]
    show ?thesis
      apply (subst retryLoop.simps)
      using e False "1.prems"(2) IH k'(1)
      apply simp
      done
  qed
qed

lemma backoffDelays_length: "length (backoffDelays cfg d k) = k"
  by (induction k arbitrary: d) auto

lemma backoffDelays_step:
  "Suc i < k \<Longrightarrow> backoffDelays cfg d k ! Suc i
      = min (backoffDelays cfg d k ! i * backoffMultiplier cfg) (maxDelayMs cfg)"
proof (induction k arbitrary: d i)
  case 0 then show ?case by simp
next
  case (Suc k)
  show ?case
  proof (cases i)
    case 0
    then show ?thesis using Suc.prems by (cases k) auto
  next
    case (Suc j)
    then show ?thesis using Suc.IH[of j] Suc.prems by simp
  qed
qed

lemma backoffDelays_hd: "0 < k \<Longrightarrow> hd (backoffDelays cfg d k) = d"
  by (cases k) auto

text \<open>
  Claim C6.  When the wrapped function fails on every call with an error that the retry
  predicate accepts, and at least one attempt is configured, \<^verbatim>\<open>withRetry\<close> invokes it
  exactly \<^verbatim>\<open>maxAttempts\<close> times; it sleeps between consecutive attempts, the first delay
  being \<^verbatim>\<open>initialDelayMs\<close> and each further delay the previous one times
  \<^verbatim>\<open>backoffMultiplier\<close>, capped at \<^verbatim>\<open>maxDelayMs\<close>; and the value thrown in the end is the
  error of the last invocation.
\<close>

theorem withRetry_exhausts_attempts:
  fixes cfg :: "'e RetryConfig" and fn :: "'s \<Rightarrow> ('e + 'a) \<times> 's"
  assumes fails: "\<forall>s. \<exists>e. fst (fn s) = Inl e \<and> retryOn cfg e"
    and pos: "1 \<le> maxAttempts cfg"
  shows "invocations (withRetry cfg fn s) = nat (maxAttempts cfg)
       \<and> length (sleeps (withRetry cfg fn s)) = nat (maxAttempts cfg - 1)
       \<and> (1 < maxAttempts cfg \<longrightarrow> hd (sleeps (withRetry cfg fn s)) = initialDelayMs cfg)
       \<and> (\<forall>i. Suc i < length (sleeps (withRetry cfg fn s)) \<longrightarrow>
            sleeps (withRetry cfg fn s) ! Suc i
              = min (sleeps (withRetry cfg fn s) ! i * backoffMultiplier cfg) (maxDelayMs cfg))
       \<and> (\<exists>e. fst (fn (stateAfter fn (nat (maxAttempts cfg - 1)) s)) = Inl e
              \<and> outcome (withRetry cfg fn s) = Inl (Some e))"
proof -
  let ?k = "nat (maxAttempts cfg - 1)"
  have run: "withRetry cfg fn s =
     \<lparr>outcome = (case fst (fn (stateAfter fn ?k s)) of Inl e \<Rightarrow> Inl (Some e) | Inr v \<Rightarrow> Inr v),
      final = stateAfter fn (Suc ?k) s,
      invocations = 0 + Suc ?k,
      sleeps = [] @ backoffDelays cfg (initialDelayMs cfg) ?k\<rparr>"
    unfolding withRetry_def using fails pos by (intro retryLoop_always_failing) auto
  obtain e where e: "fst (fn (stateAfter fn ?k s)) = Inl e"
    using fails by blast
  have inv: "invocations (withRetry cfg fn s) = nat (maxAttempts cfg)"
    using pos by (simp add: run)
  have sl: "sleeps (withRetry cfg fn s) = backoffDelays cfg (initialDelayMs cfg) ?k"
    by (simp add: run)
  have out: "outcome (withRetry cfg fn s) = Inl (Some e)"
    by (simp add: run e)
  have hd: "1 < maxAttempts cfg \<longrightarrow> hd (sleeps (withRetry cfg fn s)) = initialDelayMs cfg"
    by (simp add: sl backoffDelays_hd)
  have step: "\<forall>i. Suc i < length (sleeps (withRetry cfg fn s)) \<longrightarrow>
            sleeps (withRetry cfg fn s) ! Suc i
              = min (sleeps (withRetry cfg fn s) ! i * backoffMultiplier cfg) (maxDelayMs cfg)"
    by (simp add: sl backoffDelays_length backoffDelays_step)
  have len: "length (sleeps (withRetry cfg fn s)) = ?k"
    by (simp add: sl backoffDelays_length)
  from inv len hd step e out show ?thesis by blast
qed

text \<open>The default configuration on a function that always fails: three calls, the
  delays 100 and 200, and the third error thrown.\<close>

theorem withRetry_exhausts_attempts_witness:
  "(\<forall>s. \<exists>e. fst (countingFailure s) = Inl e \<and> retryOn DEFAULT_RETRY_CONFIG e)
   \<and> 1 \<le> maxAttempts DEFAULT_RETRY_CONFIG
   \<and> invocations (withRetry DEFAULT_RETRY_CONFIG countingFailure 0) = 3
   \<and> length (sleeps (withRetry DEFAULT_RETRY_CONFIG countingFailure 0)) = 2
   \<and> hd (sleeps (withRetry DEFAULT_RETRY_CONFIG countingFailure 0)) = 100
   \<and> sleeps (withRetry DEFAULT_RETRY_CONFIG countingFailure 0) ! 1 = 200
   \<and> outcome (withRetry DEFAULT_RETRY_CONFIG countingFailure 0)
       = Inl (Some \<lparr>errName = ''Error'', errMessage = ''2'', masRetryable = Some True\<rparr>)"
proof -
  let ?run = "withRetry DEFAULT_RETRY_CONFIG countingFailure 0"
  have h1: "\<forall>s. \<exists>e. fst (countingFailure s) = Inl e \<and> retryOn DEFAULT_RETRY_CONFIG e"
    by (simp add: countingFailure_def DEFAULT_RETRY_CONFIG_def)
  have h2: "1 \<le> maxAttempts DEFAULT_RETRY_CONFIG"
    by (simp add: DEFAULT_RETRY_CONFIG_def)
  have two: "nat (maxAttempts DEFAULT_RETRY_CONFIG - 1) = Suc (Suc 0)"
    by (simp add: DEFAULT_RETRY_CONFIG_def)
  have sn: "showNat 2 = ''2''" by (subst showNat.simps) simp
  have st: "stateAfter countingFailure (Suc (Suc 0)) 0 = 2"
    by (simp add: countingFailure_def)
  note t = withRetry_exhausts_attempts[OF h1 h2, of 0, unfolded two st]
  have cfg: "maxAttempts DEFAULT_RETRY_CONFIG = 3" "initialDelayMs DEFAULT_RETRY_CONFIG = 100"
    "backoffMultiplier DEFAULT_RETRY_CONFIG = 2" "maxDelayMs DEFAULT_RETRY_CONFIG = 5000"
    by (simp_all add: DEFAULT_RETRY_CONFIG_def)
  from t have inv: "invocations ?run = 3"
    by (simp add: cfg)
  from t have len: "length (sleeps ?run) = 2" by simp
  from t have hd: "hd (sleeps ?run) = 100"
    by (simp add: cfg)
  from len have hd0: "sleeps ?run ! 0 = hd (sleeps ?run)"
    by (cases "sleeps ?run") auto
  from t len have "sleeps ?run ! Suc 0
      = min (sleeps ?run ! 0 * backoffMultiplier DEFAULT_RETRY_CONFIG) (maxDelayMs DEFAULT_RETRY_CONFIG)"
    by simp
  then have nth1: "sleeps ?run ! 1 = 200"
    by (simp add: hd0 hd cfg)
  have cf: "fst (countingFailure 2)
       = Inl \<lparr>errName = ''Error'', errMessage = ''2'', masRetryable = Some True\<rparr>"
    by (simp add: countingFailure_def sn)
  from t obtain e where "fst (countingFailure 2) = Inl e" "outcome ?run = Inl (Some e)"
    by blast
  with cf have out: "outcome ?run
       = Inl (Some \<lparr>errName = ''Error'', errMessage = ''2'', masRetryable = Some True\<rparr>)"
    by simp
  from h1 h2 inv len hd nth1 out show ?thesis by blast
qed

subsection \<open>Circuit breaker\<close>

lemma getCircuit_Some: "circuits cb sid = Some c \<Longrightarrow> getCircuit cb sid now = (c, cb)"
  by (simp add: getCircuit_def)

lemma getCircuit_None:
  "circuits cb sid = None \<Longrightarrow>
   getCircuit cb sid now = (freshCircuit now, setCircuit cb sid (freshCircuit now))"
  by (simp add: getCircuit_def setCircuit_def freshCircuit_def Let_def)

lemma circuits_setCircuit [simp]: "circuits (setCircuit cb sid c) sid = Some c"
  by (simp add: setCircuit_def)

lemma config_setCircuit [simp]: "config (setCircuit cb sid c) = config cb"
  by (simp add: setCircuit_def)

lemma setCircuit_same: "circuits cb sid = Some c \<Longrightarrow> setCircuit cb sid c = cb"
  by (simp add: setCircuit_def map_upd_triv)

lemma setCircuit_twice [simp]: "setCircuit (setCircuit cb sid c) sid c' = setCircuit cb sid c'"
  by (simp add: setCircuit_def)

text \<open>An operation on an absent circuit behaves as on the freshly created one.\<close>

lemma recordFailure_create:
  "circuits cb sid = None \<Longrightarrow>
   recordFailure cb sid now = recordFailure (setCircuit cb sid (freshCircuit now)) sid now"
  by (simp add: recordFailure_def getCircuit_None getCircuit_Some Let_def)

lemma recordFailure_Some:
  "circuits cb sid = Some c \<Longrightarrow>
   recordFailure cb sid now =
     setCircuit cb sid
       (if state c = HALF_OPEN \<or>
           (state c = CLOSED \<and> failureThreshold (config cb) \<le> int (length (recentFailures (failedAt (config cb) c now))))
        then (failedAt (config cb) c now)\<lparr>state := OPEN, lastStateChange := now\<rparr>
        else failedAt (config cb) c now)"
  by (simp add: recordFailure_def getCircuit_Some Let_def failedAt_def)

lemma config_recordFailure [simp]: "config (recordFailure cb sid now) = config cb"
  by (cases "circuits cb sid") (simp_all add: recordFailure_create recordFailure_Some)

lemma config_foldl_recordFailure [simp]:
  "config (foldl (\<lambda>b t. recordFailure b sid t) cb ts) = config cb"
  by (induction ts arbitrary: cb) simp_all

lemma inWindow_failedAt:
  assumes "t \<le> T" "T - t < monitoringWindowMs cfg"
  shows "inWindow cfg T (failedAt cfg c t) = Suc (inWindow cfg T c)"
proof -
  have "filter (\<lambda>u. T - u < monitoringWindowMs cfg)
          (filter (\<lambda>u. t - u < monitoringWindowMs cfg) (recentFailures c))
        = filter (\<lambda>u. T - u < monitoringWindowMs cfg) (recentFailures c)"
    using assms(1) by (auto intro!: filter_cong)
  then show ?thesis using assms(2) by (simp add: inWindow_def failedAt_def)
qed

lemma inWindow_le_length: "inWindow cfg T c \<le> length (recentFailures c)"
  by (simp add: inWindow_def)

lemma state_failedAt [simp]: "state (failedAt cfg c t) = state c"
  by (simp add: failedAt_def)

lemma inWindow_state_upd [simp]:
  "inWindow cfg T (c\<lparr>state := s, lastStateChange := l\<rparr>) = inWindow cfg T c"
  by (simp add: inWindow_def)

lemma failures_open_aux:
  assumes "\<forall>t\<in>set ts. t \<le> T \<and> T - t < monitoringWindowMs (config cb)"
    and "circuits cb sid = Some c"
    and "state c = OPEN \<or>
         (ts \<noteq> [] \<and> (state c = HALF_OPEN \<or>
            failureThreshold (config cb) \<le> int (inWindow (config cb) T c) + int (length ts)))"
  shows "\<exists>c'. circuits (foldl (\<lambda>b t. recordFailure b sid t) cb ts) sid = Some c' \<and> state c' = OPEN"
  using assms
proof (induction ts arbitrary: cb c)
  case Nil
  then show ?case by simp
next
  case (Cons t ts)
  let ?cfg = "config cb"
  let ?f = "failedAt ?cfg c t"
  have tT: "t \<le> T" "T - t < monitoringWindowMs ?cfg" using Cons.prems(1) by simp_all
  have win: "inWindow ?cfg T ?f = Suc (inWindow ?cfg T c)"
    using tT by (rule inWindow_failedAt)
  obtain c1 where c1: "circuits (recordFailure cb sid t) sid = Some c1"
    and st: "state c1 = OPEN \<or> (state c1 = CLOSED \<and> c1 = ?f
                \<and> int (length (recentFailures ?f)) < failureThreshold ?cfg)"
    using Cons.prems(2,3) by (cases "state c") (auto simp: recordFailure_Some)
  have rest: "\<forall>u\<in>set ts. u \<le> T \<and> T - u < monitoringWindowMs (config (recordFailure cb sid t))"
    using Cons.prems(1) by simp
  have "state c1 = OPEN \<or>
         (ts \<noteq> [] \<and> (state c1 = HALF_OPEN \<or>
            failureThreshold (config (recordFailure cb sid t))
              \<le> int (inWindow (config (recordFailure cb sid t)) T c1) + int (length ts)))"
  proof (cases "state c1 = OPEN")
    case True then show ?thesis by simp
  next
    case False
    with st have cl: "state c1 = CLOSED" "c1 = ?f"
      "int (length (recentFailures ?f)) < failureThreshold ?cfg" by auto
    then have "state c = CLOSED" by simp
    with Cons.prems(3) have thr: "failureThreshold ?cfg \<le> int (inWindow ?cfg T c) + int (length (t # ts))"
      by auto
    have "int (inWindow ?cfg T ?f) < failureThreshold ?cfg"
      using cl(3) inWindow_le_length[of ?cfg T ?f] by linarith
    with thr win have "ts \<noteq> []" by auto
    moreover have "failureThreshold ?cfg \<le> int (inWindow ?cfg T c1) + int (length ts)"
      using thr win cl(2) by simp
    ultimately show ?thesis by simp
  qed
  from Cons.IH[OF rest c1 this] show ?case by simp
qed

lemma sorted_le_last: "sorted (xs :: int list) \<Longrightarrow> x \<in> set xs \<Longrightarrow> x \<le> last xs"
  by (induction xs) auto

lemma failures_open:
  assumes thr: "0 < failureThreshold (config cb)"
    and len: "length ts = nat (failureThreshold (config cb))"
    and sorted: "sorted ts"
    and win: "\<forall>t\<in>set ts. last ts - t < monitoringWindowMs (config cb)"
  shows "\<exists>c'. circuits (foldl (\<lambda>b t. recordFailure b sid t) cb ts) sid = Some c' \<and> state c' = OPEN"
proof -
  from thr len obtain t ts' where ts: "ts = t # ts'" by (cases ts) auto
  have le: "\<forall>u\<in>set ts. u \<le> last ts"
    using sorted by (auto intro: sorted_le_last)
  have all: "\<forall>u\<in>set ts. u \<le> last ts \<and> last ts - u < monitoringWindowMs (config cb)"
    using le win by blast
  show ?thesis
  proof (cases "circuits cb sid")
    case (Some c)
    have "state c = OPEN \<or> (ts \<noteq> [] \<and> (state c = HALF_OPEN \<or>
            failureThreshold (config cb) \<le> int (inWindow (config cb) (last ts) c) + int (length ts)))"
      using ts len thr by simp
    from failures_open_aux[OF all Some this] show ?thesis .
  next
    case None
    let ?b = "setCircuit cb sid (freshCircuit t)"
    have eq: "foldl (\<lambda>b t. recordFailure b sid t) cb ts = foldl (\<lambda>b t. recordFailure b sid t) ?b ts"
      using None by (simp add: ts recordFailure_create)
    have all': "\<forall>u\<in>set ts. u \<le> last ts \<and> last ts - u < monitoringWindowMs (config ?b)"
      using all by simp
    have "state (freshCircuit t) = OPEN \<or> (ts \<noteq> [] \<and> (state (freshCircuit t) = HALF_OPEN \<or>
            failureThreshold (config ?b) \<le> int (inWindow (config ?b) (last ts) (freshCircuit t)) + int (length ts)))"
      using ts len thr by simp
    from failures_open_aux[OF all' _ this, of sid] show ?thesis by (simp add: eq)
  qed
qed

lemma canExecute_open_early:
  "circuits cb sid = Some c \<Longrightarrow> state c = OPEN \<Longrightarrow>
   now - lastStateChange c < resetTimeoutMs (config cb) \<Longrightarrow>
   canExecute cb sid now = (False, cb)"
  by (simp add: canExecute_def getCircuit_Some)

lemma canExecute_open_late:
  "circuits cb sid = Some c \<Longrightarrow> state c = OPEN \<Longrightarrow>
   resetTimeoutMs (config cb) \<le> now - lastStateChange c \<Longrightarrow>
   canExecute cb sid now =
     (True, setCircuit cb sid (c\<lparr>state := HALF_OPEN, lastStateChange := now, successes := 0\<rparr>))"
  by (simp add: canExecute_def getCircuit_Some)

lemma recordFailure_half_open:
  "circuits b sid = Some h \<Longrightarrow> state h = HALF_OPEN \<Longrightarrow>
   \<exists>c'. circuits (recordFailure b sid t) sid = Some c' \<and> state c' = OPEN \<and> lastStateChange c' = t"
  by (simp add: recordFailure_Some)

lemma recordSuccess_Some:
  "circuits cb sid = Some c \<Longrightarrow>
   recordSuccess cb sid now =
     (if state c = HALF_OPEN then
        setCircuit cb sid
          (if successThreshold (config cb) \<le> successes c + 1
           then c\<lparr>successes := successes c + 1, state := CLOSED, failures := 0, lastStateChange := now\<rparr>
           else c\<lparr>successes := successes c + 1\<rparr>)
      else cb)"
  by (simp add: recordSuccess_def getCircuit_Some Let_def)

lemma config_recordSuccess [simp]: "config (recordSuccess cb sid now) = config cb"
proof (cases "circuits cb sid")
  case None
  then show ?thesis by (simp add: recordSuccess_def getCircuit_None freshCircuit_def)
next
  case (Some c)
  then show ?thesis by (simp add: recordSuccess_Some)
qed

lemma successes_close_aux:
  assumes "circuits b sid = Some h"
    and "state h = CLOSED \<or>
         (state h = HALF_OPEN \<and> us \<noteq> [] \<and> successThreshold (config b) \<le> successes h + int (length us))"
  shows "\<exists>c'. circuits (foldl (\<lambda>b t. recordSuccess b sid t) b us) sid = Some c' \<and> state c' = CLOSED"
  using assms
proof (induction us arbitrary: b h)
  case Nil
  then show ?case by simp
next
  case (Cons u us)
  obtain h1 where h1: "circuits (recordSuccess b sid u) sid = Some h1"
    and st: "state h1 = CLOSED \<or>
             (state h1 = HALF_OPEN \<and> successes h1 = successes h + 1
                \<and> successes h + 1 < successThreshold (config b))"
    using Cons.prems by (cases "state h") (auto simp: recordSuccess_Some)
  have "state h1 = CLOSED \<or>
         (state h1 = HALF_OPEN \<and> us \<noteq> [] \<and>
          successThreshold (config (recordSuccess b sid u)) \<le> successes h1 + int (length us))"
  proof (cases "state h1 = CLOSED")
    case True then show ?thesis by simp
  next
    case False
    with st have half: "state h1 = HALF_OPEN" "successes h1 = successes h + 1"
      "successes h + 1 < successThreshold (config b)" by auto
    from half(1) h1 Cons.prems have "state h = HALF_OPEN"
      by (cases "state h") (auto simp: recordSuccess_Some)
    with Cons.prems(2) have "successThreshold (config b) \<le> successes h + int (length (u # us))"
      by auto
    with half show ?thesis by auto
  qed
  from Cons.IH[OF h1 this] show ?case by simp
qed

lemma successes_stay_half_open:
  assumes "circuits b sid = Some h" "state h = HALF_OPEN"
    and "successes h + int (length us) < successThreshold (config b)"
  shows "\<exists>c'. circuits (foldl (\<lambda>b t. recordSuccess b sid t) b us) sid = Some c'
            \<and> state c' = HALF_OPEN \<and> successes c' = successes h + int (length us)"
  using assms
proof (induction us arbitrary: b h)
  case Nil
  then show ?case by simp
next
  case (Cons u us)
  let ?h1 = "h\<lparr>successes := successes h + 1\<rparr>"
  have h1: "circuits (recordSuccess b sid u) sid = Some ?h1"
    using Cons.prems by (simp add: recordSuccess_Some)
  have "successes ?h1 + int (length us) < successThreshold (config (recordSuccess b sid u))"
    using Cons.prems(3) by simp
  from Cons.IH[OF h1 _ this] Cons.prems(2) show ?case by (simp add: add.assoc)
qed

lemma closed_below_threshold:
  assumes "circuits cb sid = Some c" "state c = CLOSED" "recentFailures c = []"
    and "int (length ts) < failureThreshold (config cb)"
  shows "\<exists>c'. circuits (foldl (\<lambda>b t. recordFailure b sid t) cb ts) sid = Some c'
            \<and> state c' = CLOSED \<and> lastStateChange c' = lastStateChange c
            \<and> subseq (recentFailures c') ts
            \<and> ((\<forall>u\<in>set ts. \<forall>v\<in>set ts. v - u < monitoringWindowMs (config cb))
                 \<longrightarrow> recentFailures c' = ts)"
  using assms(4)
proof (induction ts rule: rev_induct)
  case Nil
  then show ?case using assms(1-3) by simp
next
  case (snoc t ts)
  let ?W = "monitoringWindowMs (config cb)"
  let ?b = "foldl (\<lambda>b t. recordFailure b sid t) cb ts"
  from snoc.prems have shorter: "int (length ts) < failureThreshold (config cb)" by simp
  from snoc.IH[OF shorter] obtain c1 where
    c1: "circuits ?b sid = Some c1" "state c1 = CLOSED" "lastStateChange c1 = lastStateChange c"
      "subseq (recentFailures c1) ts"
      "(\<forall>u\<in>set ts. \<forall>v\<in>set ts. v - u < ?W) \<longrightarrow> recentFailures c1 = ts"
    by blast
  let ?rf = "filter (\<lambda>u. t - u < ?W) (recentFailures c1) @ [t]"
  have cfg: "config ?b = config cb" by simp
  have rf: "recentFailures (failedAt (config cb) c1 t) = ?rf"
    by (simp add: failedAt_def)
  have "length (filter (\<lambda>u. t - u < ?W) (recentFailures c1)) \<le> length (recentFailures c1)"
    by (rule length_filter_le)
  also have "\<dots> \<le> length ts"
    using c1(4) by (rule list_emb_length)
  finally have "length ?rf \<le> length (ts @ [t])" by simp
  with snoc.prems have small: "\<not> failureThreshold (config cb) \<le> int (length ?rf)" by simp
  have step: "circuits (recordFailure ?b sid t) sid = Some (failedAt (config cb) c1 t)"
    using c1(1,2) small by (simp add: recordFailure_Some rf cfg del: config_foldl_recordFailure)
  have sub: "subseq ?rf (ts @ [t])"
  proof -
    have "subseq (filter (\<lambda>u. t - u < ?W) (recentFailures c1)) ts"
      using subseq_filter_left c1(4) by (rule subseq_order.trans)
    then show ?thesis by simp
  qed
  have exact: "recentFailures (failedAt (config cb) c1 t) = ts @ [t]"
    if w: "\<forall>u\<in>set (ts @ [t]). \<forall>v\<in>set (ts @ [t]). v - u < ?W"
  proof -
    from w c1(5) have "recentFailures c1 = ts" by simp
    moreover have "filter (\<lambda>u. t - u < ?W) ts = ts"
      using w by (auto intro: filter_True)
    ultimately show ?thesis by (simp add: rf)
  qed
  show ?case
    using step c1(2,3) sub exact by (auto simp: failedAt_def)
qed

lemma foldl_recordFailure_create:
  "circuits cb sid = None \<Longrightarrow>
   foldl (\<lambda>b t. recordFailure b sid t) cb (t # ts)
     = foldl (\<lambda>b t. recordFailure b sid t) (setCircuit cb sid (freshCircuit t)) (t # ts)"
  by (simp add: recordFailure_create)

lemma sorted_window_pairwise:
  assumes "sorted (ts :: int list)" and "\<forall>u\<in>set ts. last ts - u < W"
  shows "\<forall>u\<in>set ts. \<forall>v\<in>set ts. v - u < W"
proof (intro ballI)
  fix u v assume u: "u \<in> set ts" and v: "v \<in> set ts"
  from assms(1) v have "v \<le> last ts" by (rule sorted_le_last)
  moreover from assms(2) u have "last ts - u < W" by blast
  ultimately show "v - u < W" by linarith
qed

lemma trips_at_threshold_Some:
  assumes c: "circuits cb sid = Some c" "state c = CLOSED" "recentFailures c = []"
    and thr: "0 < failureThreshold (config cb)"
    and len: "length ts = nat (failureThreshold (config cb))"
    and pw: "\<forall>u\<in>set ts. \<forall>v\<in>set ts. v - u < monitoringWindowMs (config cb)"
  shows "\<exists>c'. circuits (foldl (\<lambda>b t. recordFailure b sid t) cb ts) sid = Some c'
            \<and> state c' = OPEN \<and> lastStateChange c' = last ts \<and> recentFailures c' = ts"
proof -
  let ?W = "monitoringWindowMs (config cb)"
  from thr len have ne: "ts \<noteq> []" by auto
  define ps where "ps = butlast ts"
  define t where "t = last ts"
  have ts: "ts = ps @ [t]" using ne by (simp add: ps_def t_def)
  let ?b = "foldl (\<lambda>b t. recordFailure b sid t) cb ps"
  have short: "int (length ps) < failureThreshold (config cb)"
    using len thr by (simp add: ts)
  have pw': "\<forall>u\<in>set ps. \<forall>v\<in>set ps. v - u < ?W" using pw by (simp add: ts)
  from closed_below_threshold[OF c short] pw' obtain c1 where
    c1: "circuits ?b sid = Some c1" "state c1 = CLOSED" "recentFailures c1 = ps"
    by blast
  have keep: "filter (\<lambda>u. t - u < ?W) ps = ps"
    using pw by (auto simp: ts intro: filter_True)
  have full: "failureThreshold (config cb) \<le> int (length (ps @ [t]))"
    using len thr by (simp add: ts)
  have "circuits (recordFailure ?b sid t) sid
      = Some ((failedAt (config cb) c1 t)\<lparr>state := OPEN, lastStateChange := t\<rparr>)"
    using c1 full by (simp add: recordFailure_Some failedAt_def keep)
  then show ?thesis by (simp add: ts failedAt_def c1 keep)
qed

lemma trips_at_threshold:
  assumes clean: "noRecentFailures cb sid"
    and thr: "0 < failureThreshold (config cb)"
    and len: "length ts = nat (failureThreshold (config cb))"
    and pw: "\<forall>u\<in>set ts. \<forall>v\<in>set ts. v - u < monitoringWindowMs (config cb)"
  shows "\<exists>c'. circuits (foldl (\<lambda>b t. recordFailure b sid t) cb ts) sid = Some c'
            \<and> state c' = OPEN \<and> lastStateChange c' = last ts \<and> recentFailures c' = ts"
proof (cases "circuits cb sid")
  case (Some c)
  with clean have "state c = CLOSED" "recentFailures c = []" by (simp_all add: noRecentFailures_def)
  from trips_at_threshold_Some[OF Some this thr len pw] show ?thesis .
next
  case None
  from thr len obtain t ts' where ts: "ts = t # ts'" by (cases ts) auto
  let ?b = "setCircuit cb sid (freshCircuit t)"
  have "\<exists>c'. circuits (foldl (\<lambda>b t. recordFailure b sid t) ?b ts) sid = Some c'
            \<and> state c' = OPEN \<and> lastStateChange c' = last ts \<and> recentFailures c' = ts"
    by (rule trips_at_threshold_Some[of ?b sid "freshCircuit t"])
       (use thr len pw in \<open>simp_all add: freshCircuit_def\<close>)
  then show ?thesis using foldl_recordFailure_create[OF None, of t ts'] by (simp add: ts)
qed

lemma closed_when_spread_Some:
  assumes c: "circuits cb sid = Some c" "state c = CLOSED" "recentFailures c = []"
    and thr: "0 < failureThreshold (config cb)"
    and len: "length vs = nat (failureThreshold (config cb))"
    and pos: "0 < monitoringWindowMs (config cb)"
    and far: "monitoringWindowMs (config cb) \<le> last vs - hd vs"
  shows "\<exists>c'. circuits (foldl (\<lambda>b t. recordFailure b sid t) cb vs) sid = Some c'
            \<and> state c' = CLOSED"
proof -
  let ?W = "monitoringWindowMs (config cb)"
  from thr len have ne: "vs \<noteq> []" by auto
  define ps where "ps = butlast vs"
  define t where "t = last vs"
  have vs: "vs = ps @ [t]" using ne by (simp add: ps_def t_def)
  have "ps \<noteq> []"
  proof
    assume "ps = []"
    then have "hd vs = last vs" by (simp add: vs)
    with far pos show False by simp
  qed
  then have hd: "hd vs \<in> set ps" by (simp add: vs)
  have out: "\<not> t - hd vs < ?W" using far by (simp add: t_def)
  let ?b = "foldl (\<lambda>b t. recordFailure b sid t) cb ps"
  have short: "int (length ps) < failureThreshold (config cb)"
    using len thr by (simp add: vs)
  from closed_below_threshold[OF c short] obtain c1 where
    c1: "circuits ?b sid = Some c1" "state c1 = CLOSED" "subseq (recentFailures c1) ps"
    by blast
  have "length (filter (\<lambda>u. t - u < ?W) (recentFailures c1)) \<le> length (filter (\<lambda>u. t - u < ?W) ps)"
    using c1(3) by (intro list_emb_length[of "(=)"] subseq_filter)
  also have "\<dots> < length ps"
    using hd out by (intro length_filter_less)
  finally have "\<not> failureThreshold (config cb)
      \<le> int (length (filter (\<lambda>u. t - u < ?W) (recentFailures c1) @ [t]))"
    using short by simp
  then have "circuits (recordFailure ?b sid t) sid = Some (failedAt (config cb) c1 t)"
    using c1(1,2) by (simp add: recordFailure_Some failedAt_def)
  then show ?thesis using c1(2) by (simp add: vs)
qed

lemma closed_when_spread:
  assumes clean: "noRecentFailures cb sid"
    and thr: "0 < failureThreshold (config cb)"
    and len: "length vs = nat (failureThreshold (config cb))"
    and pos: "0 < monitoringWindowMs (config cb)"
    and far: "monitoringWindowMs (config cb) \<le> last vs - hd vs"
  shows "\<exists>c'. circuits (foldl (\<lambda>b t. recordFailure b sid t) cb vs) sid = Some c'
            \<and> state c' = CLOSED"
proof (cases "circuits cb sid")
  case (Some c)
  with clean have "state c = CLOSED" "recentFailures c = []" by (simp_all add: noRecentFailures_def)
  from closed_when_spread_Some[OF Some this thr len pos far] show ?thesis .
next
  case None
  from thr len obtain t ts' where ts: "vs = t # ts'" by (cases vs) auto
  let ?b = "setCircuit cb sid (freshCircuit t)"
  have "\<exists>c'. circuits (foldl (\<lambda>b t. recordFailure b sid t) ?b vs) sid = Some c'
            \<and> state c' = CLOSED"
    by (rule closed_when_spread_Some[of ?b sid "freshCircuit t"])
       (use thr len pos far in \<open>simp_all add: freshCircuit_def\<close>)
  then show ?thesis using foldl_recordFailure_create[OF None, of t ts'] by (simp add: ts)
qed

lemma canExecute_closed:
  "circuits b sid = Some k \<Longrightarrow> state k = CLOSED \<Longrightarrow> canExecute b sid now = (True, b)"
  by (simp add: canExecute_def getCircuit_Some)

lemma canExecute_half_open:
  "circuits b sid = Some k \<Longrightarrow> state k = HALF_OPEN \<Longrightarrow> canExecute b sid now = (True, b)"
  by (simp add: canExecute_def getCircuit_Some)

lemma canExecute_below_threshold:
  assumes clean: "noRecentFailures cb sid"
    and short: "int (length ws) < failureThreshold (config cb)"
  shows "fst (canExecute (foldl (\<lambda>b t. recordFailure b sid t) cb ws) sid now)
       \<and> map_option state
           (circuits (snd (canExecute (foldl (\<lambda>b t. recordFailure b sid t) cb ws) sid now)) sid)
         = Some CLOSED"
proof -
  let ?B = "foldl (\<lambda>b t. recordFailure b sid t) cb ws"
  show ?thesis
  proof (cases "circuits ?B sid")
    case None
    then show ?thesis
      by (simp add: canExecute_def getCircuit_None freshCircuit_def)
  next
    case (Some k)
    have "state k = CLOSED"
    proof (cases "circuits cb sid")
      case c: (Some c)
      with clean have "state c = CLOSED" "recentFailures c = []"
        by (simp_all add: noRecentFailures_def)
      from closed_below_threshold[OF c this short] Some show ?thesis by auto
    next
      case None
      show ?thesis
      proof (cases ws)
        case Nil
        with None Some show ?thesis by simp
      next
        case (Cons t ts')
        let ?b = "setCircuit cb sid (freshCircuit t)"
        have "\<exists>c'. circuits (foldl (\<lambda>b t. recordFailure b sid t) ?b ws) sid = Some c'
            \<and> state c' = CLOSED"
          using closed_below_threshold[of ?b sid "freshCircuit t" ws] short
          by (auto simp: freshCircuit_def)
        then show ?thesis
          using foldl_recordFailure_create[OF None, of t ts'] Some by (simp add: Cons)
      qed
    qed
    with Some show ?thesis by (simp add: canExecute_closed)
  qed
qed


text \<open>
  Claim C5.  For every service identifier and every breaker with a positive failure
  threshold: after \<^verbatim>\<open>failureThreshold\<close> consecutive \<^verbatim>\<open>recordFailure\<close> calls whose time stamps
  do not decrease and all lie within the monitoring window of the last one, the circuit is
  OPEN, and \<^verbatim>\<open>canExecute\<close> returns false and changes nothing while less than
  \<^verbatim>\<open>resetTimeoutMs\<close> has passed since the recorded state change; the first \<^verbatim>\<open>canExecute\<close>
  at or after that moment returns true and puts the circuit into HALF_OPEN with a zero
  success count.

  For a service without recorded failures (no circuit yet, or a CLOSED one with an empty
  window) the state change is the last of these failures: the circuit records exactly these
  time stamps, \<^verbatim>\<open>canExecute\<close> is false at every time less than \<^verbatim>\<open>resetTimeoutMs\<close> after the
  last failure, and the first call at or after that returns true, sets HALF_OPEN at the
  time of the call, and a further call returns true without another transition.  Fewer
  than \<^verbatim>\<open>failureThreshold\<close> failures leave the circuit CLOSED and executable, and so do
  \<^verbatim>\<open>failureThreshold\<close> failures of which the first lies a full monitoring window or more
  before the last.

  In every HALF_OPEN circuit one \<^verbatim>\<open>recordFailure\<close> reopens the circuit at the time of that
  failure, so that \<^verbatim>\<open>canExecute\<close> is false again for \<^verbatim>\<open>resetTimeoutMs\<close>, and
  \<^verbatim>\<open>successThreshold\<close> consecutive \<^verbatim>\<open>recordSuccess\<close> calls close it (no fewer do, when
  the count starts at zero).
\<close>

theorem circuit_breaker_lifecycle:
  fixes cb b :: CircuitBreaker and sid :: string
  assumes thr: "0 < failureThreshold (config cb)"
    and len: "length ts = nat (failureThreshold (config cb))"
    and sorted: "sorted ts"
    and win: "\<forall>t\<in>set ts. last ts - t < monitoringWindowMs (config cb)"
    and opened: "cbOpen = foldl (\<lambda>b t. recordFailure b sid t) cb ts"
  shows "(\<exists>c. circuits cbOpen sid = Some c \<and> state c = OPEN
            \<and> (\<forall>now. now - lastStateChange c < resetTimeoutMs (config cb) \<longrightarrow>
                   canExecute cbOpen sid now = (False, cbOpen))
            \<and> (\<forall>now. resetTimeoutMs (config cb) \<le> now - lastStateChange c \<longrightarrow>
                   canExecute cbOpen sid now =
                     (True, setCircuit cbOpen sid
                              (c\<lparr>state := HALF_OPEN, lastStateChange := now, successes := 0\<rparr>))))
       \<and> (noRecentFailures cb sid \<longrightarrow>
            (\<exists>c. circuits cbOpen sid = Some c \<and> state c = OPEN
                 \<and> lastStateChange c = last ts \<and> recentFailures c = ts)
            \<and> (\<forall>now. now - last ts < resetTimeoutMs (config cb) \<longrightarrow>
                   canExecute cbOpen sid now = (False, cbOpen))
            \<and> (\<forall>now later. resetTimeoutMs (config cb) \<le> now - last ts \<longrightarrow>
                   fst (canExecute cbOpen sid now)
                   \<and> (\<exists>h'. circuits (snd (canExecute cbOpen sid now)) sid = Some h'
                          \<and> state h' = HALF_OPEN \<and> lastStateChange h' = now \<and> successes h' = 0)
                   \<and> canExecute (snd (canExecute cbOpen sid now)) sid later
                       = (True, snd (canExecute cbOpen sid now)))
            \<and> (\<forall>now. int (length ws) < failureThreshold (config cb) \<longrightarrow>
                   fst (canExecute (foldl (\<lambda>b t. recordFailure b sid t) cb ws) sid now)
                   \<and> map_option state
                        (circuits (snd (canExecute (foldl (\<lambda>b t. recordFailure b sid t) cb ws) sid now))
                           sid) = Some CLOSED)
            \<and> (length vs = nat (failureThreshold (config cb)) \<and> 0 < monitoringWindowMs (config cb)
                 \<and> monitoringWindowMs (config cb) \<le> last vs - hd vs \<longrightarrow>
                   (\<exists>c'. circuits (foldl (\<lambda>b t. recordFailure b sid t) cb vs) sid = Some c'
                         \<and> state c' = CLOSED)))
       \<and> (circuits b sid = Some h \<and> state h = HALF_OPEN \<longrightarrow>
            (\<exists>c'. circuits (recordFailure b sid t) sid = Some c' \<and> state c' = OPEN
                  \<and> lastStateChange c' = t)
            \<and> (\<forall>now. now - t < resetTimeoutMs (config b) \<longrightarrow>
                   canExecute (recordFailure b sid t) sid now = (False, recordFailure b sid t)))
       \<and> (circuits b sid = Some h \<and> state h = HALF_OPEN \<and> 0 \<le> successes h
            \<and> 0 < successThreshold (config b) \<and> length us = nat (successThreshold (config b)) \<longrightarrow>
            (\<exists>c'. circuits (foldl (\<lambda>b t. recordSuccess b sid t) b us) sid = Some c'
                  \<and> state c' = CLOSED))
       \<and> (circuits b sid = Some h \<and> state h = HALF_OPEN \<and> successes h = 0
            \<and> int (length xs) < successThreshold (config b) \<longrightarrow>
            (\<exists>c'. circuits (foldl (\<lambda>b t. recordSuccess b sid t) b xs) sid = Some c'
                  \<and> state c' = HALF_OPEN))"
proof -
  have cfg: "config cbOpen = config cb" by (simp add: opened)
  have p1: "\<exists>c. circuits cbOpen sid = Some c \<and> state c = OPEN
            \<and> (\<forall>now. now - lastStateChange c < resetTimeoutMs (config cb) \<longrightarrow>
                   canExecute cbOpen sid now = (False, cbOpen))
            \<and> (\<forall>now. resetTimeoutMs (config cb) \<le> now - lastStateChange c \<longrightarrow>
                   canExecute cbOpen sid now =
                     (True, setCircuit cbOpen sid
                              (c\<lparr>state := HALF_OPEN, lastStateChange := now, successes := 0\<rparr>)))"
  proof -
    obtain c where c: "circuits cbOpen sid = Some c" "state c = OPEN"
      using failures_open[OF thr len sorted win, of sid] opened by blast
    show ?thesis
      using c canExecute_open_early[OF c] canExecute_open_late[OF c] by (auto simp: cfg)
  qed
  have p2: "(\<exists>c. circuits cbOpen sid = Some c \<and> state c = OPEN
                 \<and> lastStateChange c = last ts \<and> recentFailures c = ts)
            \<and> (\<forall>now. now - last ts < resetTimeoutMs (config cb) \<longrightarrow>
                   canExecute cbOpen sid now = (False, cbOpen))
            \<and> (\<forall>now later. resetTimeoutMs (config cb) \<le> now - last ts \<longrightarrow>
                   fst (canExecute cbOpen sid now)
                   \<and> (\<exists>h'. circuits (snd (canExecute cbOpen sid now)) sid = Some h'
                          \<and> state h' = HALF_OPEN \<and> lastStateChange h' = now \<and> successes h' = 0)
                   \<and> canExecute (snd (canExecute cbOpen sid now)) sid later
                       = (True, snd (canExecute cbOpen sid now)))
            \<and> (\<forall>now. int (length ws) < failureThreshold (config cb) \<longrightarrow>
                   fst (canExecute (foldl (\<lambda>b t. recordFailure b sid t) cb ws) sid now)
                   \<and> map_option state
                        (circuits (snd (canExecute (foldl (\<lambda>b t. recordFailure b sid t) cb ws) sid now))
                           sid) = Some CLOSED)
            \<and> (length vs = nat (failureThreshold (config cb)) \<and> 0 < monitoringWindowMs (config cb)
                 \<and> monitoringWindowMs (config cb) \<le> last vs - hd vs \<longrightarrow>
                   (\<exists>c'. circuits (foldl (\<lambda>b t. recordFailure b sid t) cb vs) sid = Some c'
                         \<and> state c' = CLOSED))"
    if clean: "noRecentFailures cb sid"
  proof -
    have pw: "\<forall>u\<in>set ts. \<forall>v\<in>set ts. v - u < monitoringWindowMs (config cb)"
      using sorted win by (rule sorted_window_pairwise)
    from trips_at_threshold[OF clean thr len pw, of ] obtain c where
      c: "circuits cbOpen sid = Some c" "state c = OPEN" "lastStateChange c = last ts"
        "recentFailures c = ts"
      unfolding opened by blast
    have a: "\<exists>c. circuits cbOpen sid = Some c \<and> state c = OPEN
                 \<and> lastStateChange c = last ts \<and> recentFailures c = ts"
      using c by blast
    have b: "\<forall>now. now - last ts < resetTimeoutMs (config cb) \<longrightarrow>
                   canExecute cbOpen sid now = (False, cbOpen)"
      using canExecute_open_early[OF c(1,2)] by (simp add: cfg c(3))
    have d: "\<forall>now later. resetTimeoutMs (config cb) \<le> now - last ts \<longrightarrow>
                   fst (canExecute cbOpen sid now)
                   \<and> (\<exists>h'. circuits (snd (canExecute cbOpen sid now)) sid = Some h'
                          \<and> state h' = HALF_OPEN \<and> lastStateChange h' = now \<and> successes h' = 0)
                   \<and> canExecute (snd (canExecute cbOpen sid now)) sid later
                       = (True, snd (canExecute cbOpen sid now))"
    proof (intro allI impI)
      fix now later assume late: "resetTimeoutMs (config cb) \<le> now - last ts"
      let ?h = "c\<lparr>state := HALF_OPEN, lastStateChange := now, successes := 0\<rparr>"
      have run: "canExecute cbOpen sid now = (True, setCircuit cbOpen sid ?h)"
        using canExecute_open_late[OF c(1,2), of now] late by (simp add: cfg c(3))
      have "canExecute (setCircuit cbOpen sid ?h) sid later = (True, setCircuit cbOpen sid ?h)"
        by (rule canExecute_half_open[of _ _ ?h]) simp_all
      with run show "fst (canExecute cbOpen sid now)
                   \<and> (\<exists>h'. circuits (snd (canExecute cbOpen sid now)) sid = Some h'
                          \<and> state h' = HALF_OPEN \<and> lastStateChange h' = now \<and> successes h' = 0)
                   \<and> canExecute (snd (canExecute cbOpen sid now)) sid later
                       = (True, snd (canExecute cbOpen sid now))"
        by simp
    qed
    have e: "\<forall>now. int (length ws) < failureThreshold (config cb) \<longrightarrow>
                   fst (canExecute (foldl (\<lambda>b t. recordFailure b sid t) cb ws) sid now)
                   \<and> map_option state
                        (circuits (snd (canExecute (foldl (\<lambda>b t. recordFailure b sid t) cb ws) sid now))
                           sid) = Some CLOSED"
      using canExecute_below_threshold[OF clean] by blast
    have f: "length vs = nat (failureThreshold (config cb)) \<and> 0 < monitoringWindowMs (config cb)
                 \<and> monitoringWindowMs (config cb) \<le> last vs - hd vs \<longrightarrow>
                   (\<exists>c'. circuits (foldl (\<lambda>b t. recordFailure b sid t) cb vs) sid = Some c'
                         \<and> state c' = CLOSED)"
      using closed_when_spread[OF clean thr] by blast
    from a b d e f show ?thesis by blast
  qed
  have p3: "(\<exists>c'. circuits (recordFailure b sid t) sid = Some c' \<and> state c' = OPEN
                  \<and> lastStateChange c' = t)
            \<and> (\<forall>now. now - t < resetTimeoutMs (config b) \<longrightarrow>
                   canExecute (recordFailure b sid t) sid now = (False, recordFailure b sid t))"
    if half: "circuits b sid = Some h \<and> state h = HALF_OPEN"
  proof -
    from half recordFailure_half_open[of b sid h t] obtain c' where
      c': "circuits (recordFailure b sid t) sid = Some c'" "state c' = OPEN" "lastStateChange c' = t"
      by blast
    show ?thesis
      using c' canExecute_open_early[OF c'(1,2)] by (auto simp: c'(3))
  qed
  have p4: "\<exists>c'. circuits (foldl (\<lambda>b t. recordSuccess b sid t) b us) sid = Some c'
                  \<and> state c' = CLOSED"
    if a: "circuits b sid = Some h \<and> state h = HALF_OPEN \<and> 0 \<le> successes h
            \<and> 0 < successThreshold (config b) \<and> length us = nat (successThreshold (config b))"
  proof -
    from a have "us \<noteq> []" by auto
    with a show ?thesis by (intro successes_close_aux[of b sid h]) auto
  qed
  have p5: "\<exists>c'. circuits (foldl (\<lambda>b t. recordSuccess b sid t) b xs) sid = Some c'
                  \<and> state c' = HALF_OPEN"
    if a: "circuits b sid = Some h \<and> state h = HALF_OPEN \<and> successes h = 0
            \<and> int (length xs) < successThreshold (config b)"
    using a successes_stay_half_open[of b sid h xs] by auto
  from p1 p2 p3 p4 p5 show ?thesis by blast
qed


text \<open>The tool breaker (threshold 3, window 60000 ms, reset after 15000 ms) run through
  one full cycle; two failures, and three failures spread over 60000 ms, leave it closed.\<close>

theorem circuit_breaker_lifecycle_witness:
  "0 < failureThreshold (config toolCircuitBreaker)
   \<and> length [1000, 2000, 3000 :: int] = nat (failureThreshold (config toolCircuitBreaker))
   \<and> sorted [1000, 2000, 3000 :: int]
   \<and> noRecentFailures toolCircuitBreaker orderTool
   \<and> map_option state (circuits threeFailures orderTool) = Some OPEN
   \<and> map_option lastStateChange (circuits threeFailures orderTool) = Some 3000
   \<and> canExecute threeFailures orderTool 3001 = (False, threeFailures)
   \<and> canExecute threeFailures orderTool 17999 = (False, threeFailures)
   \<and> fst (canExecute threeFailures orderTool 18000) = True
   \<and> map_option state (circuits probing orderTool) = Some HALF_OPEN
   \<and> canExecute probing orderTool 18001 = (True, probing)
   \<and> fst (canExecute (foldl (\<lambda>b t. recordFailure b orderTool t) toolCircuitBreaker [1000, 2000])
            orderTool 2001) = True
   \<and> map_option state
        (circuits (foldl (\<lambda>b t. recordFailure b orderTool t) toolCircuitBreaker [1000, 2000, 61000])
           orderTool) = Some CLOSED
   \<and> map_option state (circuits (recordFailure probing orderTool 19000) orderTool) = Some OPEN
   \<and> canExecute (recordFailure probing orderTool 19000) orderTool 33999
       = (False, recordFailure probing orderTool 19000)
   \<and> map_option state (circuits (foldl (\<lambda>b t. recordSuccess b orderTool t) probing [19000])
        orderTool) = Some HALF_OPEN
   \<and> map_option state (circuits (foldl (\<lambda>b t. recordSuccess b orderTool t) probing [19000, 20000])
        orderTool) = Some CLOSED"
proof -
  let ?ts = "[1000, 2000, 3000 :: int]"
  let ?C = "\<lparr>state = OPEN, failures = 3, successes = 0, lastFailure = 3000,
             lastStateChange = 3000, recentFailures = [1000, 2000, 3000]\<rparr>"
  let ?H = "?C\<lparr>state := HALF_OPEN, lastStateChange := 18000, successes := 0\<rparr>"
  have cfg: "failureThreshold (config toolCircuitBreaker) = 3"
    "successThreshold (config toolCircuitBreaker) = 2"
    "resetTimeoutMs (config toolCircuitBreaker) = 15000"
    "monitoringWindowMs (config toolCircuitBreaker) = 60000"
    by (simp_all add: toolCircuitBreaker_def DEFAULT_CIRCUIT_CONFIG_def)
  have h1: "0 < failureThreshold (config toolCircuitBreaker)" by (simp add: cfg)
  have h2: "length ?ts = nat (failureThreshold (config toolCircuitBreaker))" by (simp add: cfg)
  have h3: "sorted ?ts" by simp
  have h4: "\<forall>t\<in>set ?ts. last ?ts - t < monitoringWindowMs (config toolCircuitBreaker)"
    by (simp add: cfg)
  have h5: "threeFailures = foldl (\<lambda>b t. recordFailure b orderTool t) toolCircuitBreaker ?ts"
    by (simp add: threeFailures_def)
  have clean: "noRecentFailures toolCircuitBreaker orderTool"
    by (simp add: noRecentFailures_def toolCircuitBreaker_def)
  have ev: "circuits threeFailures orderTool = Some ?C"
    by (simp add: threeFailures_def recordFailure_def getCircuit_def setCircuit_def
        toolCircuitBreaker_def DEFAULT_CIRCUIT_CONFIG_def Let_def)
  have cfg3: "config threeFailures = config toolCircuitBreaker"
    by (simp add: threeFailures_def)
  note T = circuit_breaker_lifecycle[OF h1 h2 h3 h4 h5,
      where b = probing and h = ?H and t = 19000 and us = "[19000, 20000]" and xs = "[19000]"
        and ws = "[1000, 2000]" and vs = "[1000, 2000, 61000]"]
  note P = T[THEN conjunct2, THEN conjunct1, THEN mp, OF clean]
  from P[THEN conjunct1] have pinned: "\<exists>c. circuits threeFailures orderTool = Some c \<and> state c = OPEN
      \<and> lastStateChange c = 3000"
    by auto
  from P[THEN conjunct2, THEN conjunct1]
  have early: "canExecute threeFailures orderTool 17999 = (False, threeFailures)"
    "canExecute threeFailures orderTool 3001 = (False, threeFailures)"
    by (simp_all add: cfg)
  from T[THEN conjunct1] ev have late: "canExecute threeFailures orderTool 18000
      = (True, setCircuit threeFailures orderTool ?H)"
    by (auto simp: cfg)
  then have pr: "circuits probing orderTool = Some ?H" "config probing = config toolCircuitBreaker"
    by (simp_all add: probing_def cfg3)
  from P[THEN conjunct2, THEN conjunct2, THEN conjunct1, THEN spec, THEN spec, of 18000 18001]
  have "canExecute (snd (canExecute threeFailures orderTool 18000)) orderTool 18001
      = (True, snd (canExecute threeFailures orderTool 18000))"
    by (simp add: cfg)
  then have again': "canExecute probing orderTool 18001 = (True, probing)"
    by (simp add: probing_def)
  from P[THEN conjunct2, THEN conjunct2, THEN conjunct2, THEN conjunct1, THEN spec, of 2001]
  have below:
    "fst (canExecute (foldl (\<lambda>b t. recordFailure b orderTool t) toolCircuitBreaker [1000, 2000])
            orderTool 2001)"
    by (simp add: cfg)
  from P[THEN conjunct2, THEN conjunct2, THEN conjunct2, THEN conjunct2]
  have spread: "\<exists>c'. circuits (foldl (\<lambda>b t. recordFailure b orderTool t)
        toolCircuitBreaker [1000, 2000, 61000]) orderTool = Some c' \<and> state c' = CLOSED"
    by (simp add: cfg)
  note Q = T[THEN conjunct2, THEN conjunct2]
  from Q[THEN conjunct1] pr have f: "\<exists>c'. circuits (recordFailure probing orderTool 19000) orderTool = Some c'
      \<and> state c' = OPEN"
    "canExecute (recordFailure probing orderTool 19000) orderTool 33999
       = (False, recordFailure probing orderTool 19000)"
    by (auto simp: cfg)
  from Q[THEN conjunct2, THEN conjunct1] pr have s2: "\<exists>c'. circuits (foldl (\<lambda>b t. recordSuccess b orderTool t) probing [19000, 20000])
        orderTool = Some c' \<and> state c' = CLOSED"
    by (simp add: cfg)
  from Q[THEN conjunct2, THEN conjunct2] pr have s1: "\<exists>c'. circuits (foldl (\<lambda>b t. recordSuccess b orderTool t) probing [19000])
        orderTool = Some c' \<and> state c' = HALF_OPEN"
    by (simp add: cfg)
  from h1 h2 h3 clean pinned early late pr again' below spread f s1 s2 show ?thesis by auto
qed

subsection \<open>Memory store\<close>

lemma recordMatches_step:
  "recordMatches men (m # ms) =
     (if normalizeMatch m \<notin> set men \<and> m \<notin> set men
      then recordMatches (men @ [m]) ms else recordMatches men ms)"
  by (simp add: recordMatches.simps(2) Let_def)

lemma recordMatches_appends:
  "\<exists>new. recordMatches men ms = men @ new \<and> subseq new ms
         \<and> (distinct men \<longrightarrow> distinct (men @ new))"
proof (induction ms arbitrary: men)
  case Nil
  then show ?case by simp
next
  case (Cons m ms)
  show ?case
  proof (cases "normalizeMatch m \<notin> set men \<and> m \<notin> set men")
    case True
    from Cons.IH[of "men @ [m]"] obtain new where
      new: "recordMatches (men @ [m]) ms = (men @ [m]) @ new" "subseq new ms"
        "distinct (men @ [m]) \<longrightarrow> distinct ((men @ [m]) @ new)" by blast
    have "recordMatches men (m # ms) = men @ (m # new)"
      using True new(1) by (simp add: recordMatches_step)
    moreover have "subseq (m # new) (m # ms)" using new(2) by simp
    moreover have "distinct men \<longrightarrow> distinct (men @ (m # new))"
      using new(3) True by auto
    ultimately show ?thesis by blast
  next
    case False
    from Cons.IH[of men] obtain new where
      new: "recordMatches men ms = men @ new" "subseq new ms"
        "distinct men \<longrightarrow> distinct (men @ new)" by blast
    have "recordMatches men (m # ms) = men @ new"
      using False new(1) by (auto simp: recordMatches_step)
    moreover have "subseq new (m # ms)" using new(2) by (rule list_emb_Cons)
    ultimately show ?thesis using new(3) by blast
  qed
qed

lemma recordMatches_mono: "set men \<subseteq> set (recordMatches men ms)"
  using recordMatches_appends[of men ms] by auto

lemma recordMatches_covers:
  "m \<in> set ms \<Longrightarrow>
   m \<in> set (recordMatches men ms) \<or> normalizeMatch m \<in> set (recordMatches men ms)"
proof (induction ms arbitrary: men)
  case Nil
  then show ?case by simp
next
  case (Cons x ms)
  show ?case
  proof (cases "m = x")
    case True
    show ?thesis
    proof (cases "normalizeMatch x \<notin> set men \<and> x \<notin> set men")
      case t: True
      have "x \<in> set (recordMatches (men @ [x]) ms)"
        using recordMatches_mono[of "men @ [x]" ms] by auto
      then show ?thesis using True t by (simp add: recordMatches_step)
    next
      case f: False
      then have "x \<in> set (recordMatches men ms) \<or> normalizeMatch x \<in> set (recordMatches men ms)"
        using recordMatches_mono[of men ms] by auto
      then show ?thesis using True f by (auto simp: recordMatches_step)
    qed
  next
    case False
    with Cons.prems have "m \<in> set ms" by simp
    from Cons.IH[OF this] show ?thesis by (simp add: recordMatches_step)
  qed
qed

lemma recordMatches_noop:
  "(\<And>m. m \<in> set ms \<Longrightarrow> m \<in> set men \<or> normalizeMatch m \<in> set men) \<Longrightarrow>
   recordMatches men ms = men"
  by (induction ms) (auto simp: recordMatches_step)

lemma recordMatches_idem:
  "recordMatches (recordMatches men ms) ms = recordMatches men ms"
  by (rule recordMatches_noop) (rule recordMatches_covers)

lemma mentioned_addMessage:
  "addMessage store sid r c md now = Inr store' \<Longrightarrow>
   mentioned store' sid =
     (if r = Customer then recordMatches (mentioned store sid) (orderMatches c)
      else mentioned store sid)"
  by (auto simp: addMessage_def mentioned_def extractEntities_def Let_def split: option.splits)

lemma recording_twice:
  assumes first: "addMessage store sid r c md t1 = Inr store1"
    and second: "addMessage store1 sid r c md' t2 = Inr store2"
  shows "mentioned store2 sid = mentioned store1 sid
       \<and> (\<exists>new. mentioned store1 sid = mentioned store sid @ new \<and> subseq new (orderMatches c))
       \<and> (distinct (mentioned store sid) \<longrightarrow> distinct (mentioned store1 sid))"
proof (cases "r = Customer")
  case True
  have m1: "mentioned store1 sid = recordMatches (mentioned store sid) (orderMatches c)"
    using mentioned_addMessage[OF first] True by simp
  have m2: "mentioned store2 sid = recordMatches (mentioned store1 sid) (orderMatches c)"
    using mentioned_addMessage[OF second] True by simp
  from recordMatches_appends[of "mentioned store sid" "orderMatches c"]
  show ?thesis by (auto simp: m1 m2 recordMatches_idem)
next
  case False
  then show ?thesis
    using mentioned_addMessage[OF first] mentioned_addMessage[OF second] by simp
qed

lemma addMessage_keeps_session:
  "sessions store sid = Some s \<Longrightarrow>
   \<exists>store' s'. addMessage store sid r c md now = Inr store' \<and> sessions store' sid = Some s'"
  by (simp add: addMessage_def Let_def)

text \<open>
  Claim C10.  For every session of the store and every message, \<^verbatim>\<open>addMessage\<close> succeeds
  twice in a row, and recording the same message the second time leaves the recorded
  order numbers as they were after the first time.  The first recording only appends to
  the list: the new entries are matches of the message, in the order of the message, and
  a list without duplicates stays without duplicates.
\<close>

theorem addMessage_extraction_idempotent:
  assumes "sessions store sid = Some s"
  shows "\<exists>store1 store2.
           addMessage store sid r c md t1 = Inr store1
         \<and> addMessage store1 sid r c md' t2 = Inr store2
         \<and> mentioned store2 sid = mentioned store1 sid
         \<and> (\<exists>new. mentioned store1 sid = mentioned store sid @ new
                  \<and> subseq new (orderMatches c))
         \<and> (distinct (mentioned store sid) \<longrightarrow> distinct (mentioned store1 sid))"
proof -
  from addMessage_keeps_session[OF assms, of r c md t1] obtain store1 s1 where
    first: "addMessage store sid r c md t1 = Inr store1" and s1: "sessions store1 sid = Some s1"
    by blast
  from addMessage_keeps_session[OF s1, of r c md' t2] obtain store2 where
    second: "addMessage store1 sid r c md' t2 = Inr store2" by blast
  from recording_twice[OF first second] first second show ?thesis by blast
qed

lemma demoStore_session: "\<exists>s. sessions demoStore demoSid = Some s"
  by (simp add: demoStore_def startSession_def emptyStore_def Let_def)

text \<open>A message that names two orders, one of them twice.\<close>

theorem addMessage_extraction_idempotent_witness:
  "addMessage demoStore demoSid Customer twoOrders None ''2026-01-01T00:00:05.000Z'' = Inr toldOnce
   \<and> addMessage toldOnce demoSid Customer twoOrders None ''2026-01-01T00:00:09.000Z'' = Inr toldTwice
   \<and> mentioned demoStore demoSid = []
   \<and> mentioned toldOnce demoSid = [''NP7654321'', ''#1234567'']
   \<and> mentioned toldTwice demoSid = [''NP7654321'', ''#1234567'']"
proof -
  obtain s0 where s0: "sessions demoStore demoSid = Some s0"
    using demoStore_session by blast
  from addMessage_keeps_session[OF s0, of Customer twoOrders None "''2026-01-01T00:00:05.000Z''"]
  obtain st1 s1 where
    x1: "addMessage demoStore demoSid Customer twoOrders None ''2026-01-01T00:00:05.000Z'' = Inr st1"
      "sessions st1 demoSid = Some s1" by blast
  then have e1: "toldOnce = st1" by (simp add: toldOnce_def storeOf_def)
  from x1 e1 have
    a1: "addMessage demoStore demoSid Customer twoOrders None ''2026-01-01T00:00:05.000Z'' = Inr toldOnce"
    and s1: "sessions toldOnce demoSid = Some s1" by simp_all
  from addMessage_keeps_session[OF s1, of Customer twoOrders None "''2026-01-01T00:00:09.000Z''"]
  obtain st2 where
    x2: "addMessage toldOnce demoSid Customer twoOrders None ''2026-01-01T00:00:09.000Z'' = Inr st2"
    by blast
  then have e2: "toldTwice = st2" by (simp add: toldTwice_def storeOf_def)
  from x2 e2 have
    a2: "addMessage toldOnce demoSid Customer twoOrders None ''2026-01-01T00:00:09.000Z'' = Inr toldTwice"
    by simp
  have m0: "mentioned demoStore demoSid = []"
    by (simp add: mentioned_def demoStore_def startSession_def emptyStore_def Let_def)
  have om: "orderMatches twoOrders = [''NP7654321'', ''#1234567'', ''#1234567'']"
    by (simp add: orderMatches_def twoOrders_def isDigit_def digitRun_def isNP_def)
  have m1: "mentioned toldOnce demoSid = [''NP7654321'', ''#1234567'']"
    using mentioned_addMessage[OF a1] by (simp add: m0 om recordMatches_step normalizeMatch_def)
  from addMessage_extraction_idempotent[OF s0, of Customer twoOrders None
      "''2026-01-01T00:00:05.000Z''" None "''2026-01-01T00:00:09.000Z''"]
  have "mentioned toldTwice demoSid = mentioned toldOnce demoSid"
    using a1 a2 by auto
  with a1 a2 m0 m1 show ?thesis by simp
qed

text \<open>
  Claim C8, as the code has it.  On a session identifier that the store does not know,
  \<^verbatim>\<open>addMessage\<close>, \<^verbatim>\<open>recordToolCall\<close> and \<^verbatim>\<open>escalate\<close> throw the session-not-found error,
  while \<^verbatim>\<open>setCurrentAgent\<close> and \<^verbatim>\<open>recordIntent\<close> return without an error and leave the
  store unchanged.
\<close>

theorem mutators_on_unknown_session:
  assumes "sessions store sid = None"
  shows "addMessage store sid r c md now = Inl (sessionNotFound sid)
       \<and> recordToolCall store sid h ps res now = Inl (sessionNotFound sid)
       \<and> escalate store sid why details now = Inl (sessionNotFound sid)
       \<and> setCurrentAgent store sid a = store
       \<and> recordIntent store sid i = store"
  using assms
  by (simp add: addMessage_def recordToolCall_def escalate_def setCurrentAgent_def recordIntent_def)

theorem mutators_on_unknown_session_witness:
  "sessions demoStore ''session_0_unknown'' = None
   \<and> addMessage demoStore ''session_0_unknown'' Customer ''hello'' None ''2026-01-01T00:01:00.000Z''
       = Inl \<lparr>errName = ''Error'', errMessage = ''Session not found: session_0_unknown'',
               masRetryable = None\<rparr>
   \<and> setCurrentAgent demoStore ''session_0_unknown'' ''refund-agent'' = demoStore
   \<and> recordIntent demoStore ''session_0_unknown'' ''ORDER_STATUS'' = demoStore"
proof -
  have h: "sessions demoStore ''session_0_unknown'' = None"
    by (simp add: demoStore_def startSession_def emptyStore_def Let_def demoSid_def)
  from mutators_on_unknown_session[OF h] show ?thesis
    using h by (simp add: sessionNotFound_def)
qed

text \<open>The claim as stated fails: two of the five mutators accept an unknown identifier
  silently.\<close>

theorem mutators_on_unknown_session_counterexample:
  "sessions demoStore ''session_0_unknown'' = None
   \<and> setCurrentAgent demoStore ''session_0_unknown'' ''refund-agent'' = demoStore
   \<and> recordIntent demoStore ''session_0_unknown'' ''ORDER_STATUS'' = demoStore"
  by (simp add: demoStore_def startSession_def emptyStore_def Let_def demoSid_def
      setCurrentAgent_def recordIntent_def)

text \<open>
  Claim C9, as the code has it.  On a session that is already escalated, \<^verbatim>\<open>escalate\<close>
  leaves the status and the escalated flag as they are, replaces the stored reason and
  summary by its arguments and sets \<^verbatim>\<open>lastActivity\<close>; nothing else changes.  Called with
  the stored reason and summary it therefore leaves all four escalation fields unchanged.
\<close>

theorem escalate_again_overwrites:
  assumes "sessions store sid = Some s"
    and "escalated (sessionContext s)" and "status s = Escalated"
  shows "escalate store sid why details now =
           Inr (store\<lparr>sessions := (sessions store)(sid \<mapsto>
                  s\<lparr>sessionContext := (sessionContext s)
                       \<lparr>escalationReason := Some why, escalationSummary := Some details\<rparr>,
                     lastActivity := now\<rparr>)\<rparr>)
       \<and> escalationFields
             (store\<lparr>sessions := (sessions store)(sid \<mapsto>
                  s\<lparr>sessionContext := (sessionContext s)
                       \<lparr>escalationReason := Some why, escalationSummary := Some details\<rparr>,
                     lastActivity := now\<rparr>)\<rparr>) sid
           = Some (Escalated, True, Some why, Some details)"
  using assms
  by (cases s; cases "sessionContext s") (simp add: escalate_def escalationFields_def)

lemma escalatedOnce_fields:
  "escalationFields escalatedOnce demoSid
     = Some (Escalated, True, Some ''customer explicitly requested human agent'',
             Some (JObj [(''session_id'', JStr demoSid)]))"
  by (simp add: escalationFields_def escalatedOnce_def storeOf_def escalate_def
      demoStore_def startSession_def emptyStore_def Let_def)

text \<open>Escalating the escalated session again with the reason and summary it already has.\<close>

theorem escalate_again_overwrites_witness:
  "escalationFields escalatedOnce demoSid
     = Some (Escalated, True, Some ''customer explicitly requested human agent'',
             Some (JObj [(''session_id'', JStr demoSid)]))
   \<and> escalationFields
        (storeOf (escalate escalatedOnce demoSid ''customer explicitly requested human agent''
           (JObj [(''session_id'', JStr demoSid)]) ''2026-01-01T00:04:00.000Z'')) demoSid
     = Some (Escalated, True, Some ''customer explicitly requested human agent'',
             Some (JObj [(''session_id'', JStr demoSid)]))"
proof -
  from escalatedOnce_fields obtain s where
    s: "sessions escalatedOnce demoSid = Some s" "escalated (sessionContext s)" "status s = Escalated"
    by (auto simp: escalationFields_def)
  from escalate_again_overwrites[OF s, of "''customer explicitly requested human agent''"
      "JObj [(''session_id'', JStr demoSid)]" "''2026-01-01T00:04:00.000Z''"]
  show ?thesis using escalatedOnce_fields by (simp add: storeOf_def)
qed

text \<open>The claim as stated fails: a second escalation with another reason and summary
  replaces the stored ones.\<close>

theorem escalate_again_overwrites_counterexample:
  "escalationFields escalatedOnce demoSid
     = Some (Escalated, True, Some ''customer explicitly requested human agent'',
             Some (JObj [(''session_id'', JStr demoSid)]))
   \<and> escalate escalatedOnce demoSid ''agent cannot safely proceed'' (JObj []) ''2026-01-01T00:03:00.000Z''
       = Inr escalatedAgain
   \<and> escalationFields escalatedAgain demoSid
       = Some (Escalated, True, Some ''agent cannot safely proceed'', Some (JObj []))
   \<and> escalationFields escalatedAgain demoSid \<noteq> escalationFields escalatedOnce demoSid"
  by (simp add: escalationFields_def escalatedAgain_def escalatedOnce_def storeOf_def escalate_def
      demoStore_def startSession_def emptyStore_def Let_def)

subsection \<open>Tool client\<close>

lemma checkValue_violation:
  "checkValue param v \<noteq> None \<longleftrightarrow> typeMismatch param v \<or> enumViolation param v"
  by (auto simp: checkValue_def typeMismatch_def enumViolation_def split: option.splits)

lemma validateLoop_valid:
  "valid (validateLoop prms ps) \<longleftrightarrow> \<not> list_ex (violates ps) prms"
proof (induction prms)
  case Nil
  then show ?case by simp
next
  case (Cons p rest)
  show ?case
  proof (cases "ps (paramName p)")
    case None
    then show ?thesis using Cons.IH by (simp add: violates_def)
  next
    case (Some v)
    show ?thesis
    proof (cases "checkValue p v")
      case None
      then have "\<not> (typeMismatch p v \<or> enumViolation p v)"
        using checkValue_violation[of p v] by simp
      then show ?thesis using Some None Cons.IH by (simp add: violates_def)
    next
      case (Some msg)
      then have "typeMismatch p v \<or> enumViolation p v"
        using checkValue_violation[of p v] by simp
      then show ?thesis using \<open>ps (paramName p) = Some v\<close> Some by (simp add: violates_def)
    qed
  qed
qed

lemma validateParams_fails: "\<not> valid (validateParams tool ps) \<longleftrightarrow> failsValidation tool ps"
  by (simp add: validateParams_def failsValidation_def validateLoop_valid)

lemma validateLoop_error: "\<not> valid (validateLoop prms ps) \<Longrightarrow> validationError (validateLoop prms ps) \<noteq> None"
  by (induction prms) (auto split: option.splits if_splits)

text \<open>
  Claim C7.  For a known tool: when a parameter of its schema is violated (required and
  missing, of the wrong type, or outside its enumeration), \<^verbatim>\<open>execute\<close> returns the
  validation failure, with \<^verbatim>\<open>success\<close> false and \<^verbatim>\<open>retryable\<close> true, and returns the world
  as it was: no request is sent and the circuit breaker is neither changed nor consulted
  (the result is the same for every breaker).  When the parameters are valid and the
  circuit of the tool is OPEN with its reset timeout not yet elapsed, \<^verbatim>\<open>execute\<close> returns
  the rate-limited failure and again sends no request.
\<close>

theorem execute_validation_first:
  assumes tool: "getToolByHandle catalogue h = Some tool"
  shows "(failsValidation tool ps \<longrightarrow>
            execute client catalogue net h ps t0 t1 w
              = (validationFailedResult (validateParams tool ps), w)
            \<and> success (validationFailedResult (validateParams tool ps)) = False
            \<and> retryable (validationFailedResult (validateParams tool ps)) = Some True
            \<and> errorCode (validationFailedResult (validateParams tool ps)) = Some TOOL_VALIDATION_FAILED)
       \<and> (\<not> failsValidation tool ps \<and> circuits (breaker w) h = Some c \<and> state c = OPEN
            \<and> t0 - lastStateChange c < resetTimeoutMs (config (breaker w)) \<longrightarrow>
            execute client catalogue net h ps t0 t1 w = (circuitOpenResult h, w)
            \<and> success (circuitOpenResult h) = False
            \<and> retryable (circuitOpenResult h) = Some True
            \<and> errorCode (circuitOpenResult h) = Some TOOL_RATE_LIMITED)"
proof (rule conjI; rule impI)
  assume f: "failsValidation tool ps"
  then have nv: "\<not> valid (validateParams tool ps)" by (simp add: validateParams_fails)
  show "execute client catalogue net h ps t0 t1 w
              = (validationFailedResult (validateParams tool ps), w)
            \<and> success (validationFailedResult (validateParams tool ps)) = False
            \<and> retryable (validationFailedResult (validateParams tool ps)) = Some True
            \<and> errorCode (validationFailedResult (validateParams tool ps)) = Some TOOL_VALIDATION_FAILED"
    using tool nv by (simp add: execute_def validationFailedResult_def Let_def)
next
  assume a: "\<not> failsValidation tool ps \<and> circuits (breaker w) h = Some c \<and> state c = OPEN
            \<and> t0 - lastStateChange c < resetTimeoutMs (config (breaker w))"
  then have v: "valid (validateParams tool ps)" using validateParams_fails by blast
  have ce: "canExecute (breaker w) h t0 = (False, breaker w)"
    using a by (intro canExecute_open_early[of _ _ c]) auto
  show "execute client catalogue net h ps t0 t1 w = (circuitOpenResult h, w)
            \<and> success (circuitOpenResult h) = False
            \<and> retryable (circuitOpenResult h) = Some True
            \<and> errorCode (circuitOpenResult h) = Some TOOL_RATE_LIMITED"
    using tool v ce by (simp add: execute_def circuitOpenResult_def failure_def Let_def)
qed

lemma threeFailures_circuit:
  "circuits threeFailures orderTool =
     Some \<lparr>state = OPEN, failures = 3, successes = 0, lastFailure = 3000,
           lastStateChange = 3000, recentFailures = [1000, 2000, 3000]\<rparr>"
  by (simp add: threeFailures_def recordFailure_def getCircuit_def setCircuit_def
        toolCircuitBreaker_def DEFAULT_CIRCUIT_CONFIG_def Let_def)

lemma config_threeFailures: "resetTimeoutMs (config threeFailures) = 15000"
  by (simp add: threeFailures_def recordFailure_def getCircuit_def setCircuit_def
        toolCircuitBreaker_def DEFAULT_CIRCUIT_CONFIG_def Let_def)

text \<open>A refund with the method CASH, and an order lookup while the circuit is open.\<close>

theorem execute_validation_first_witness:
  "getToolByHandle demoCatalogue ''shopify_refund_order'' = Some shopify_refund_order
   \<and> failsValidation shopify_refund_order cashRefund
   \<and> execute demoClient demoCatalogue okNetwork ''shopify_refund_order'' cashRefund 1000 1200 freshWorld
       = (\<lparr>success = False, data = None,
            error = Some ''Parameter refundMethod must be one of: ORIGINAL_PAYMENT_METHODS, STORE_CREDIT'',
            errorCode = Some TOOL_VALIDATION_FAILED, retryable = Some True,
            suggestion = Some ''Fix parameter and retry. Parameter refundMethod must be one of: ORIGINAL_PAYMENT_METHODS, STORE_CREDIT''\<rparr>,
          freshWorld)
   \<and> getToolByHandle demoCatalogue orderTool = Some shopify_get_order_details
   \<and> \<not> failsValidation shopify_get_order_details orderLookup
   \<and> execute demoClient demoCatalogue okNetwork orderTool orderLookup 17999 18200 trippedWorld
       = (\<lparr>success = False, data = None,
            error = Some ''Circuit open: shopify_get_order_details temporarily unavailable'',
            errorCode = Some TOOL_RATE_LIMITED, retryable = Some True,
            suggestion = Some ''Tool is experiencing issues. Wait and retry.''\<rparr>,
          trippedWorld)"
proof -
  have t1: "getToolByHandle demoCatalogue ''shopify_refund_order'' = Some shopify_refund_order"
    by (simp add: getToolByHandle_def demoCatalogue_def shopify_get_order_details_def
        shopify_refund_order_def)
  have f1: "failsValidation shopify_refund_order cashRefund"
    by (simp add: failsValidation_def shopify_refund_order_def cashRefund_def violates_def
        typeMismatch_def enumViolation_def)
  have v1: "validateParams shopify_refund_order cashRefund
      = \<lparr>valid = False, validationError =
           Some ''Parameter refundMethod must be one of: ORIGINAL_PAYMENT_METHODS, STORE_CREDIT''\<rparr>"
    by (simp add: validateParams_def shopify_refund_order_def cashRefund_def checkValue_def)
  have t2: "getToolByHandle demoCatalogue orderTool = Some shopify_get_order_details"
    by (simp add: getToolByHandle_def demoCatalogue_def shopify_get_order_details_def
        orderTool_def)
  have f2: "\<not> failsValidation shopify_get_order_details orderLookup"
    by (simp add: failsValidation_def shopify_get_order_details_def orderLookup_def violates_def
        typeMismatch_def enumViolation_def)
  have c2: "circuits (breaker trippedWorld) orderTool =
     Some \<lparr>state = OPEN, failures = 3, successes = 0, lastFailure = 3000,
           lastStateChange = 3000, recentFailures = [1000, 2000, 3000]\<rparr>"
    by (simp add: trippedWorld_def threeFailures_circuit)
  have r2: "resetTimeoutMs (config (breaker trippedWorld)) = 15000"
    by (simp add: trippedWorld_def config_threeFailures)
  note A = execute_validation_first[OF t1, of cashRefund demoClient okNetwork 1000 1200 freshWorld]
  note B = execute_validation_first[OF t2, of orderLookup demoClient okNetwork 17999 18200
      trippedWorld "\<lparr>state = OPEN, failures = 3, successes = 0, lastFailure = 3000,
           lastStateChange = 3000, recentFailures = [1000, 2000, 3000]\<rparr>"]
  from A f1 have e1: "execute demoClient demoCatalogue okNetwork ''shopify_refund_order'' cashRefund
       1000 1200 freshWorld = (validationFailedResult (validateParams shopify_refund_order cashRefund), freshWorld)"
    by simp
  from B f2 c2 r2 have e2: "execute demoClient demoCatalogue okNetwork orderTool orderLookup 17999 18200
       trippedWorld = (circuitOpenResult orderTool, trippedWorld)"
    by simp
  show ?thesis
    using t1 f1 t2 f2 e1 e2
    by (simp add: v1 validationFailedResult_def circuitOpenResult_def failure_def orderTool_def)
qed

text \<open>For contrast: a valid call on a closed circuit does send a request.\<close>

lemma execute_valid_call_sends_request:
  "execute demoClient demoCatalogue okNetwork orderTool orderLookup 1000 1200 freshWorld
     = (\<lparr>success = True, data = None, error = None, errorCode = None, retryable = None,
          suggestion = None\<rparr>,
        \<lparr>breaker = setCircuit toolCircuitBreaker orderTool (freshCircuit 1000),
         sent = [\<lparr>url = ''https://lookfor-backend.ngrok.app/v1/api/hackhaton/get_order_details'',
                  body = orderLookup\<rparr>]\<rparr>)"
proof -
  let ?ok = "\<lparr>success = True, data = None, error = None, errorCode = None, retryable = None,
          suggestion = None\<rparr>"
  let ?w1 = "\<lparr>breaker = setCircuit toolCircuitBreaker orderTool (freshCircuit 1000), sent = []\<rparr>"
  let ?w2 = "\<lparr>breaker = setCircuit toolCircuitBreaker orderTool (freshCircuit 1000),
         sent = [\<lparr>url = ''https://lookfor-backend.ngrok.app/v1/api/hackhaton/get_order_details'',
                  body = orderLookup\<rparr>]\<rparr>"
  have t2: "getToolByHandle demoCatalogue orderTool = Some shopify_get_order_details"
    by (simp add: getToolByHandle_def demoCatalogue_def shopify_get_order_details_def
        orderTool_def)
  have v: "valid (validateParams shopify_get_order_details orderLookup)"
    by (simp add: validateParams_def shopify_get_order_details_def orderLookup_def checkValue_def)
  have ce: "canExecute (breaker freshWorld) orderTool 1000
      = (True, setCircuit toolCircuitBreaker orderTool (freshCircuit 1000))"
    by (simp add: canExecute_def getCircuit_def freshWorld_def toolCircuitBreaker_def
        setCircuit_def freshCircuit_def Let_def)
  have mr: "makeRequest demoClient okNetwork (endpoint shopify_get_order_details) orderTool
              orderLookup ?w1 = (Inr ?ok, ?w2)"
    by (simp add: makeRequest_def okNetwork_def demoClient_def shopify_get_order_details_def Let_def)
  have run: "withRetry toolRetryConfig
               (makeRequest demoClient okNetwork (endpoint shopify_get_order_details) orderTool orderLookup)
               ?w1
             = \<lparr>outcome = Inr ?ok, final = ?w2, invocations = Suc 0, sleeps = []\<rparr>"
    unfolding withRetry_def
    by (subst retryLoop.simps) (simp add: mr toolRetryConfig_def DEFAULT_RETRY_CONFIG_def)
  have rs: "recordSuccess (setCircuit toolCircuitBreaker orderTool (freshCircuit 1000)) orderTool 1200
      = setCircuit toolCircuitBreaker orderTool (freshCircuit 1000)"
    by (simp add: recordSuccess_def getCircuit_def setCircuit_def freshCircuit_def)
  have w1: "freshWorld\<lparr>breaker := setCircuit toolCircuitBreaker orderTool (freshCircuit 1000)\<rparr> = ?w1"
    by (simp add: freshWorld_def)
  show ?thesis
    by (simp add: execute_def t2 v ce Let_def w1 run rs)
qed

subsection \<open>Escalation detection\<close>

lemma shouldEscalate_alt:
  "shouldEscalate orch session msg \<longleftrightarrow>
     explicitRequest msg \<or> list_ex (derivedCondition session) (escalationTriggers (escalationConfig orch))"
  by (simp add: shouldEscalate_def explicitRequest_def Let_def)

lemma derivedCondition_short:
  "length (intentHistory (sessionContext session)) \<le> 3 \<Longrightarrow>
   \<not> list_ex (derivedCondition session) cs"
  by (induction cs) (auto simp: derivedCondition_def)

lemma checkEscalation_quiet:
  assumes "getSession (memoryStore w) sid = Some session"
    and "\<not> escalated (sessionContext session)"
    and "\<not> explicitRequest msg"
    and "length (intentHistory (sessionContext session)) \<le> 3"
  shows "checkEscalation orch sid msg resp now w = (Inr notEscalated, w)"
  using assms
  by (simp add: checkEscalation_def shouldEscalate_alt derivedCondition_short notEscalated_def)

text \<open>
  Claim C2 does not hold of the code.  \<^verbatim>\<open>checkEscalation\<close> decides from the message and
  the intent history alone: for a session with two or more failed tool calls that is not
  escalated and has at most three recorded intents, and a message without escalation
  keyword or trigger phrase, it reports no escalation and changes nothing.
\<close>

theorem checkEscalation_ignores_tool_failures:
  assumes "getSession (memoryStore w) sid = Some session"
    and "2 \<le> failedCalls session"
    and "\<not> escalated (sessionContext session)"
    and "\<not> explicitRequest msg"
    and "length (intentHistory (sessionContext session)) \<le> 3"
  shows "checkEscalation orch sid msg resp now w = (Inr notEscalated, w)"
  using assms(1,3,4,5) by (rule checkEscalation_quiet)



lemma anyUpdate_plain: "\<not> explicitRequest anyUpdate \<and> \<not> str_includes (toLowerCase anyUpdate) ''transfer''"
  by (simp add: explicitRequest_def anyUpdate_def escalationKeywords_def escalationPhrases_def
      toLowerCase_def toLowerChar_def)

lemma failedTwice_session:
  "\<exists>s. getSession (memoryStore (worldOf failedTwice)) demoSid = Some s
       \<and> \<not> escalated (sessionContext s) \<and> intentHistory (sessionContext s) = []
       \<and> failedCalls s = 2"
  by (simp add: worldOf_def failedTwice_def storeOf_def recordToolCall_def demoStore_def
      startSession_def emptyStore_def getSession_def Let_def cacheToolResult_def orderNotFound_def
      failure_def failedCalls_def)

text \<open>The session with two failed tool calls, asked for an update.\<close>

theorem checkEscalation_ignores_tool_failures_witness:
  "(\<exists>s. getSession (memoryStore (worldOf failedTwice)) demoSid = Some s \<and> failedCalls s = 2)
   \<and> \<not> explicitRequest anyUpdate
   \<and> checkEscalation demoOrchestrator demoSid anyUpdate None ''2026-01-01T00:01:00.000Z''
         (worldOf failedTwice)
       = (Inr \<lparr>resultEscalated = False, reason = None, resultMessage = None,
                internalSummary = None\<rparr>, worldOf failedTwice)"
proof -
  from failedTwice_session obtain s where
    s: "getSession (memoryStore (worldOf failedTwice)) demoSid = Some s"
      "\<not> escalated (sessionContext s)" "intentHistory (sessionContext s) = []" "failedCalls s = 2"
    by blast
  have short: "length (intentHistory (sessionContext s)) \<le> 3" using s(3) by simp
  have two: "2 \<le> failedCalls s" using s(4) by simp
  from checkEscalation_ignores_tool_failures[OF s(1) two s(2) _ short, of anyUpdate demoOrchestrator
      None "''2026-01-01T00:01:00.000Z''"] anyUpdate_plain s
  show ?thesis by (auto simp: notEscalated_def)
qed


subsection \<open>Routing\<close>

lemma ruleStep_cases:
  "ruleStep orch msg cls st x =
     (if highestScore st < calculateRuleScore msg cls x
         \<and> minConfidence (conditions x) \<le> calculateRuleScore msg cls x
      then \<lparr>target = (case agents orch (targetAgent x) of Some a \<Rightarrow> Some a | None \<Rightarrow> target st),
            highestScore = calculateRuleScore msg cls x, selectedRule = Some x\<rparr>
      else st)"
  by (simp add: ruleStep_def Let_def)

lemma ruleLoop_selection:
  fixes orch msg cls
  defines "step \<equiv> ruleStep orch msg cls" and "sc \<equiv> calculateRuleScore msg cls"
  assumes none0: "selectedRule st = None \<longrightarrow>
        highestScore st = 0 \<and> target st = fb
        \<and> (\<forall>q\<in>set seen. \<not> (0 < sc q \<and> minConfidence (conditions q) \<le> sc q))"
    and sel0: "\<forall>r. selectedRule st = Some r \<longrightarrow>
        highestScore st = sc r \<and> minConfidence (conditions r) \<le> sc r \<and> 0 < sc r
        \<and> (\<exists>xs ys. seen = xs @ r # ys
              \<and> (\<forall>q\<in>set xs. minConfidence (conditions q) \<le> sc q \<longrightarrow> sc q < sc r)
              \<and> (\<forall>q\<in>set ys. minConfidence (conditions q) \<le> sc q \<longrightarrow> sc q \<le> sc r))
        \<and> (\<forall>a. agents orch (targetAgent r) = Some a \<longrightarrow> target st = Some a)"
    and tgt0: "target st = fb \<or>
        (\<exists>q\<in>set seen. 0 < sc q \<and> minConfidence (conditions q) \<le> sc q
            \<and> target st = agents orch (targetAgent q) \<and> target st \<noteq> None)"
  shows "(selectedRule (foldl step st rules) = None \<longrightarrow>
            highestScore (foldl step st rules) = 0 \<and> target (foldl step st rules) = fb
            \<and> (\<forall>q\<in>set (seen @ rules). \<not> (0 < sc q \<and> minConfidence (conditions q) \<le> sc q)))
       \<and> (\<forall>r. selectedRule (foldl step st rules) = Some r \<longrightarrow>
            highestScore (foldl step st rules) = sc r \<and> minConfidence (conditions r) \<le> sc r
            \<and> 0 < sc r
            \<and> (\<exists>xs ys. seen @ rules = xs @ r # ys
                  \<and> (\<forall>q\<in>set xs. minConfidence (conditions q) \<le> sc q \<longrightarrow> sc q < sc r)
                  \<and> (\<forall>q\<in>set ys. minConfidence (conditions q) \<le> sc q \<longrightarrow> sc q \<le> sc r))
            \<and> (\<forall>a. agents orch (targetAgent r) = Some a \<longrightarrow>
                   target (foldl step st rules) = Some a))
       \<and> (target (foldl step st rules) = fb \<or>
            (\<exists>q\<in>set (seen @ rules). 0 < sc q \<and> minConfidence (conditions q) \<le> sc q
                \<and> target (foldl step st rules) = agents orch (targetAgent q)
                \<and> target (foldl step st rules) \<noteq> None))"
  using none0 sel0 tgt0
proof (induction rules arbitrary: st seen)
  case Nil
  then show ?case by simp
next
  case (Cons x rules)
  let ?st = "step st x"
  let ?s = "sc x"
  have bound: "\<forall>q\<in>set seen. minConfidence (conditions q) \<le> sc q \<longrightarrow> sc q \<le> highestScore st"
  proof (cases "selectedRule st")
    case None
    with Cons.prems(1) show ?thesis by force
  next
    case (Some r)
    with Cons.prems(2) obtain xs ys where
      r: "highestScore st = sc r" "seen = xs @ r # ys"
        "\<forall>q\<in>set xs. minConfidence (conditions q) \<le> sc q \<longrightarrow> sc q < sc r"
        "\<forall>q\<in>set ys. minConfidence (conditions q) \<le> sc q \<longrightarrow> sc q \<le> sc r"
      by blast
    show ?thesis
    proof (intro ballI impI)
      fix q assume "q \<in> set seen" and qq: "minConfidence (conditions q) \<le> sc q"
      then consider "q \<in> set xs" | "q = r" | "q \<in> set ys" by (auto simp: r(2))
      then show "sc q \<le> highestScore st"
        using r(1,3,4) qq by cases force+
    qed
  qed
  have nonneg: "0 \<le> highestScore st"
  proof (cases "selectedRule st")
    case None
    with Cons.prems(1) show ?thesis by simp
  next
    case (Some r)
    with Cons.prems(2) show ?thesis by force
  qed
  have st': "?st = (if highestScore st < ?s \<and> minConfidence (conditions x) \<le> ?s
      then \<lparr>target = (case agents orch (targetAgent x) of Some a \<Rightarrow> Some a | None \<Rightarrow> target st),
            highestScore = ?s, selectedRule = Some x\<rparr>
      else st)"
    by (simp add: step_def sc_def ruleStep_cases)
  have rej: "?st = st" if "\<not> (highestScore st < ?s \<and> minConfidence (conditions x) \<le> ?s)"
    unfolding st' using that by (rule if_not_P)
  have acc: "?st = \<lparr>target = (case agents orch (targetAgent x) of Some a \<Rightarrow> Some a | None \<Rightarrow> target st),
            highestScore = ?s, selectedRule = Some x\<rparr>"
    if "highestScore st < ?s \<and> minConfidence (conditions x) \<le> ?s"
    unfolding st' using that by (rule if_P)
  have a: "selectedRule ?st = None \<longrightarrow>
        highestScore ?st = 0 \<and> target ?st = fb
        \<and> (\<forall>q\<in>set (seen @ [x]). \<not> (0 < sc q \<and> minConfidence (conditions q) \<le> sc q))"
  proof (cases "highestScore st < ?s \<and> minConfidence (conditions x) \<le> ?s")
    case True
    then show ?thesis by (simp add: acc)
  next
    case False
    show ?thesis
    proof
      assume "selectedRule ?st = None"
      then have n: "selectedRule st = None" by (simp add: rej[OF False])
      with Cons.prems(1) have z: "highestScore st = 0" "target st = fb"
        "\<forall>q\<in>set seen. \<not> (0 < sc q \<and> minConfidence (conditions q) \<le> sc q)" by simp_all
      from False z(1) have "\<not> (0 < ?s \<and> minConfidence (conditions x) \<le> ?s)" by simp
      with z show "highestScore ?st = 0 \<and> target ?st = fb
        \<and> (\<forall>q\<in>set (seen @ [x]). \<not> (0 < sc q \<and> minConfidence (conditions q) \<le> sc q))"
        by (simp add: rej[OF False])
    qed
  qed
  have b: "\<forall>r. selectedRule ?st = Some r \<longrightarrow>
        highestScore ?st = sc r \<and> minConfidence (conditions r) \<le> sc r \<and> 0 < sc r
        \<and> (\<exists>xs ys. seen @ [x] = xs @ r # ys
              \<and> (\<forall>q\<in>set xs. minConfidence (conditions q) \<le> sc q \<longrightarrow> sc q < sc r)
              \<and> (\<forall>q\<in>set ys. minConfidence (conditions q) \<le> sc q \<longrightarrow> sc q \<le> sc r))
        \<and> (\<forall>a. agents orch (targetAgent r) = Some a \<longrightarrow> target ?st = Some a)"
  proof (cases "highestScore st < ?s \<and> minConfidence (conditions x) \<le> ?s")
    case True
    have split: "\<exists>xs ys. seen @ [x] = xs @ x # ys
              \<and> (\<forall>q\<in>set xs. minConfidence (conditions q) \<le> sc q \<longrightarrow> sc q < ?s)
              \<and> (\<forall>q\<in>set ys. minConfidence (conditions q) \<le> sc q \<longrightarrow> sc q \<le> ?s)"
    proof (intro exI conjI)
      show "seen @ [x] = seen @ x # []" by simp
      show "\<forall>q\<in>set seen. minConfidence (conditions q) \<le> sc q \<longrightarrow> sc q < ?s"
        using bound True by force
      show "\<forall>q\<in>set []. minConfidence (conditions q) \<le> sc q \<longrightarrow> sc q \<le> ?s" by simp
    qed
    from True nonneg have pos: "0 < ?s" by simp
    show ?thesis using True split pos by (simp add: acc[OF True] split: option.splits)
  next
    case False
    show ?thesis
    proof (intro allI impI)
      fix r assume "selectedRule ?st = Some r"
      then have sr: "selectedRule st = Some r" by (simp add: rej[OF False])
      with Cons.prems(2) obtain xs ys where
        r: "highestScore st = sc r" "minConfidence (conditions r) \<le> sc r" "0 < sc r"
          "seen = xs @ r # ys"
          "\<forall>q\<in>set xs. minConfidence (conditions q) \<le> sc q \<longrightarrow> sc q < sc r"
          "\<forall>q\<in>set ys. minConfidence (conditions q) \<le> sc q \<longrightarrow> sc q \<le> sc r"
          "\<forall>a. agents orch (targetAgent r) = Some a \<longrightarrow> target st = Some a"
        by blast
      have split: "\<exists>xs ys. seen @ [x] = xs @ r # ys
              \<and> (\<forall>q\<in>set xs. minConfidence (conditions q) \<le> sc q \<longrightarrow> sc q < sc r)
              \<and> (\<forall>q\<in>set ys. minConfidence (conditions q) \<le> sc q \<longrightarrow> sc q \<le> sc r)"
      proof (intro exI conjI)
        show "seen @ [x] = xs @ r # (ys @ [x])" by (simp add: r(4))
        show "\<forall>q\<in>set xs. minConfidence (conditions q) \<le> sc q \<longrightarrow> sc q < sc r" by (rule r(5))
        from False r(1) have "minConfidence (conditions x) \<le> ?s \<longrightarrow> ?s \<le> sc r" by auto
        with r(6) show "\<forall>q\<in>set (ys @ [x]). minConfidence (conditions q) \<le> sc q \<longrightarrow> sc q \<le> sc r"
          by simp
      qed
      show "highestScore ?st = sc r \<and> minConfidence (conditions r) \<le> sc r \<and> 0 < sc r
        \<and> (\<exists>xs ys. seen @ [x] = xs @ r # ys
              \<and> (\<forall>q\<in>set xs. minConfidence (conditions q) \<le> sc q \<longrightarrow> sc q < sc r)
              \<and> (\<forall>q\<in>set ys. minConfidence (conditions q) \<le> sc q \<longrightarrow> sc q \<le> sc r))
        \<and> (\<forall>a. agents orch (targetAgent r) = Some a \<longrightarrow> target ?st = Some a)"
        using r(1,2,3,7) split by (simp add: rej[OF False])
    qed
  qed
  have c: "target ?st = fb \<or>
        (\<exists>q\<in>set (seen @ [x]). 0 < sc q \<and> minConfidence (conditions q) \<le> sc q
            \<and> target ?st = agents orch (targetAgent q) \<and> target ?st \<noteq> None)"
  proof (cases "highestScore st < ?s \<and> minConfidence (conditions x) \<le> ?s")
    case True
    from True nonneg have pos: "0 < ?s" by simp
    show ?thesis
    proof (cases "agents orch (targetAgent x)")
      case None
      then have "target ?st = target st" by (simp add: acc[OF True])
      with Cons.prems(3) show ?thesis by auto
    next
      case (Some a)
      then have "target ?st = agents orch (targetAgent x)" "target ?st \<noteq> None"
        by (simp_all add: acc[OF True])
      with True pos show ?thesis by auto
    qed
  next
    case False
    then have "target ?st = target st" by (simp add: rej)
    with Cons.prems(3) show ?thesis by auto
  qed
  from Cons.IH[of ?st "seen @ [x]", OF a b c] show ?case by simp
qed


lemma ruleLoop_result:
  fixes orch msg cls
  defines "sc \<equiv> calculateRuleScore msg cls" and "L \<equiv> ruleLoop orch msg cls"
  shows "(selectedRule L = None \<longrightarrow>
            highestScore L = 0 \<and> target L = fallbackAgent orch
            \<and> (\<forall>q\<in>set (routingRules orch). \<not> (0 < sc q \<and> minConfidence (conditions q) \<le> sc q)))
       \<and> (\<forall>r. selectedRule L = Some r \<longrightarrow>
            highestScore L = sc r \<and> minConfidence (conditions r) \<le> sc r \<and> 0 < sc r
            \<and> (\<exists>xs ys. routingRules orch = xs @ r # ys
                  \<and> (\<forall>q\<in>set xs. minConfidence (conditions q) \<le> sc q \<longrightarrow> sc q < sc r)
                  \<and> (\<forall>q\<in>set ys. minConfidence (conditions q) \<le> sc q \<longrightarrow> sc q \<le> sc r))
            \<and> (\<forall>a. agents orch (targetAgent r) = Some a \<longrightarrow> target L = Some a))
       \<and> (target L = fallbackAgent orch \<or>
            (\<exists>q\<in>set (routingRules orch). 0 < sc q \<and> minConfidence (conditions q) \<le> sc q
                \<and> target L = agents orch (targetAgent q) \<and> target L \<noteq> None))"
  unfolding L_def sc_def ruleLoop_def
  using ruleLoop_selection[of "\<lparr>target = fallbackAgent orch, highestScore = 0, selectedRule = None\<rparr>"
      "fallbackAgent orch" "[]" msg cls orch "routingRules orch"]
  by simp

lemma ruleLoop_first_best:
  fixes orch msg cls
  defines "sc \<equiv> calculateRuleScore msg cls" and "L \<equiv> ruleLoop orch msg cls"
  assumes rules: "routingRules orch = xs @ r # ys"
    and pos: "0 < sc r" and qual: "minConfidence (conditions r) \<le> sc r"
    and before: "\<forall>q\<in>set xs. minConfidence (conditions q) \<le> sc q \<longrightarrow> sc q < sc r"
    and after: "\<forall>q\<in>set ys. minConfidence (conditions q) \<le> sc q \<longrightarrow> sc q \<le> sc r"
  shows "selectedRule L = Some r \<and> highestScore L = sc r"
proof -
  note R = ruleLoop_result[of orch msg cls, folded sc_def L_def]
  note R1 = R[THEN conjunct1, rule_format] and R2 = R[THEN conjunct2, THEN conjunct1, rule_format]
  have "selectedRule L \<noteq> None"
  proof
    assume "selectedRule L = None"
    from R1[OF this] have "\<forall>q\<in>set (routingRules orch). \<not> (0 < sc q \<and> minConfidence (conditions q) \<le> sc q)"
      by simp
    with pos qual show False by (simp add: rules)
  qed
  then obtain r' where sel: "selectedRule L = Some r'" by auto
  from R2[OF sel] obtain xs' ys' where
    r': "highestScore L = sc r'" "minConfidence (conditions r') \<le> sc r'"
      "routingRules orch = xs' @ r' # ys'"
      "\<forall>q\<in>set xs'. minConfidence (conditions q) \<le> sc q \<longrightarrow> sc q < sc r'"
      "\<forall>q\<in>set ys'. minConfidence (conditions q) \<le> sc q \<longrightarrow> sc q \<le> sc r'"
    by blast
  from rules r'(3) have eq: "xs @ r # ys = xs' @ r' # ys'" by simp
  have "r' = r"
  proof -
    from eq obtain us where
      us: "(xs = xs' @ us \<and> us @ r # ys = r' # ys') \<or> (xs @ us = xs' \<and> r # ys = us @ r' # ys')"
      by (auto simp: append_eq_append_conv2)
    then show ?thesis
    proof
      assume a: "xs = xs' @ us \<and> us @ r # ys = r' # ys'"
      show ?thesis
      proof (cases us)
        case Nil
        with a show ?thesis by simp
      next
        case (Cons u us')
        with a have in_xs: "r' \<in> set xs" and in_ys': "r \<in> set ys'" by auto
        from before in_xs r'(2) have "sc r' < sc r" by blast
        moreover from r'(5) in_ys' qual have "sc r \<le> sc r'" by blast
        ultimately show ?thesis by simp
      qed
    next
      assume a: "xs @ us = xs' \<and> r # ys = us @ r' # ys'"
      show ?thesis
      proof (cases us)
        case Nil
        with a show ?thesis by simp
      next
        case (Cons u us')
        with a have in_xs': "r \<in> set xs'" and in_ys: "r' \<in> set ys" by auto
        from r'(4) in_xs' qual have "sc r < sc r'" by blast
        moreover from after in_ys r'(2) have "sc r' \<le> sc r" by blast
        ultimately show ?thesis by simp
      qed
    qed
  qed
  with sel r'(1) show ?thesis by simp
qed

lemma target_ruleLoop_Some:
  "fallbackAgent orch \<noteq> None \<Longrightarrow> target (ruleLoop orch msg cls) \<noteq> None"
proof -
  have "\<And>st. target st \<noteq> None \<Longrightarrow> target (foldl (ruleStep orch msg cls) st rules) \<noteq> None" for rules
  proof (induction rules)
    case Nil
    then show ?case by simp
  next
    case (Cons r rules)
    have "target (ruleStep orch msg cls st r) \<noteq> None"
      using Cons.prems by (auto simp: ruleStep_def Let_def split: option.splits)
    from Cons.IH[OF this] show ?case by simp
  qed
  then show "fallbackAgent orch \<noteq> None \<Longrightarrow> target (ruleLoop orch msg cls) \<noteq> None"
    by (simp add: ruleLoop_def)
qed

lemma route_chosen:
  "route orch sid msg now w = (Inr res, w') \<Longrightarrow>
   Some (chosenAgent res) =
     (case continuityAgent orch (getSession (memoryStore w) sid) (classifyMessage msg) of
        Some a \<Rightarrow> Some a
      | None \<Rightarrow> target (ruleLoop orch msg (classifyMessage msg)))"
  by (auto simp: route_def Let_def split: option.splits)

lemma route_total:
  assumes "fallbackAgent orch \<noteq> None"
  shows "\<exists>res w'. route orch sid msg now w = (Inr res, w')"
proof -
  from target_ruleLoop_Some[OF assms, of msg "classifyMessage msg"]
  obtain a where "target (ruleLoop orch msg (classifyMessage msg)) = Some a" by auto
  then show ?thesis by (auto simp: route_def Let_def split: option.splits)
qed

text \<open>
  Claim C4, as the code has it.  The loop over the routing rules selects only a rule
  whose score reaches its \<^verbatim>\<open>minConfidence\<close>, and then one of highest score among the
  rules that do; when the agent of the selected rule is configured, it is the target of
  the loop.  When every rule scores below its \<^verbatim>\<open>minConfidence\<close> the loop selects none
  and leaves the fallback agent as target.  In every case the target is the fallback
  agent or the agent of a rule with a positive score that reaches its \<^verbatim>\<open>minConfidence\<close>,
  never the agent of a rule below it.  Which rule is selected is determined by the scores
  alone: the first rule of the list that has a positive score, reaches its
  \<^verbatim>\<open>minConfidence\<close>, and scores strictly higher than every such rule before it and at
  least as high as every such rule after it.  The agent that \<^verbatim>\<open>route\<close> returns is the
  session's current agent when the continuity check keeps it, and the target of the loop
  otherwise; with a fallback agent \<^verbatim>\<open>route\<close> always returns a result.
\<close>

theorem route_respects_minConfidence:
  "(\<forall>r. selectedRule (ruleLoop orch msg cls) = Some r \<longrightarrow>
        r \<in> set (routingRules orch)
        \<and> minConfidence (conditions r) \<le> calculateRuleScore msg cls r
        \<and> highestScore (ruleLoop orch msg cls) = calculateRuleScore msg cls r
        \<and> (\<forall>q\<in>set (routingRules orch).
              minConfidence (conditions q) \<le> calculateRuleScore msg cls q \<longrightarrow>
              calculateRuleScore msg cls q \<le> calculateRuleScore msg cls r)
        \<and> (\<forall>a. agents orch (targetAgent r) = Some a \<longrightarrow>
              target (ruleLoop orch msg cls) = Some a))
   \<and> ((\<forall>r\<in>set (routingRules orch). calculateRuleScore msg cls r < minConfidence (conditions r)) \<longrightarrow>
        selectedRule (ruleLoop orch msg cls) = None
        \<and> target (ruleLoop orch msg cls) = fallbackAgent orch)
   \<and> (target (ruleLoop orch msg cls) = fallbackAgent orch
        \<or> (\<exists>q\<in>set (routingRules orch).
              0 < calculateRuleScore msg cls q
              \<and> minConfidence (conditions q) \<le> calculateRuleScore msg cls q
              \<and> target (ruleLoop orch msg cls) = agents orch (targetAgent q)
              \<and> target (ruleLoop orch msg cls) \<noteq> None))
   \<and> (\<forall>xs r ys.
         routingRules orch = xs @ r # ys
         \<and> 0 < calculateRuleScore msg cls r
         \<and> minConfidence (conditions r) \<le> calculateRuleScore msg cls r
         \<and> (\<forall>q\<in>set xs. minConfidence (conditions q) \<le> calculateRuleScore msg cls q \<longrightarrow>
                calculateRuleScore msg cls q < calculateRuleScore msg cls r)
         \<and> (\<forall>q\<in>set ys. minConfidence (conditions q) \<le> calculateRuleScore msg cls q \<longrightarrow>
                calculateRuleScore msg cls q \<le> calculateRuleScore msg cls r) \<longrightarrow>
         selectedRule (ruleLoop orch msg cls) = Some r
         \<and> highestScore (ruleLoop orch msg cls) = calculateRuleScore msg cls r
         \<and> (\<forall>a. agents orch (targetAgent r) = Some a \<longrightarrow>
                target (ruleLoop orch msg cls) = Some a))
   \<and> (\<forall>res w'. route orch sid msg now w = (Inr res, w') \<longrightarrow>
        Some (chosenAgent res) =
          (case continuityAgent orch (getSession (memoryStore w) sid) (classifyMessage msg) of
             Some a \<Rightarrow> Some a
           | None \<Rightarrow> target (ruleLoop orch msg (classifyMessage msg))))
   \<and> (fallbackAgent orch \<noteq> None \<longrightarrow> (\<exists>res w'. route orch sid msg now w = (Inr res, w')))"
proof -
  note R = ruleLoop_result[of orch msg cls]
  note R1 = R[THEN conjunct1, rule_format] and R2 = R[THEN conjunct2, THEN conjunct1, rule_format]
    and R3 = R[THEN conjunct2, THEN conjunct2]
  have sel: "highestScore (ruleLoop orch msg cls) = calculateRuleScore msg cls r
        \<and> minConfidence (conditions r) \<le> calculateRuleScore msg cls r
        \<and> r \<in> set (routingRules orch)
        \<and> (\<forall>q\<in>set (routingRules orch).
              minConfidence (conditions q) \<le> calculateRuleScore msg cls q \<longrightarrow>
              calculateRuleScore msg cls q \<le> calculateRuleScore msg cls r)
        \<and> (\<forall>a. agents orch (targetAgent r) = Some a \<longrightarrow>
              target (ruleLoop orch msg cls) = Some a)"
    if s: "selectedRule (ruleLoop orch msg cls) = Some r" for r
  proof -
    from R2[OF s] obtain xs ys where
      r: "highestScore (ruleLoop orch msg cls) = calculateRuleScore msg cls r"
        "minConfidence (conditions r) \<le> calculateRuleScore msg cls r"
        "routingRules orch = xs @ r # ys"
        "\<forall>q\<in>set xs. minConfidence (conditions q) \<le> calculateRuleScore msg cls q \<longrightarrow>
            calculateRuleScore msg cls q < calculateRuleScore msg cls r"
        "\<forall>q\<in>set ys. minConfidence (conditions q) \<le> calculateRuleScore msg cls q \<longrightarrow>
            calculateRuleScore msg cls q \<le> calculateRuleScore msg cls r"
        "\<forall>a. agents orch (targetAgent r) = Some a \<longrightarrow> target (ruleLoop orch msg cls) = Some a"
      by blast
    have "\<forall>q\<in>set (routingRules orch).
              minConfidence (conditions q) \<le> calculateRuleScore msg cls q \<longrightarrow>
              calculateRuleScore msg cls q \<le> calculateRuleScore msg cls r"
      using r(4,5) by (force simp: r(3))
    with r show ?thesis by simp
  qed
  have p1: "\<forall>r. selectedRule (ruleLoop orch msg cls) = Some r \<longrightarrow>
        r \<in> set (routingRules orch)
        \<and> minConfidence (conditions r) \<le> calculateRuleScore msg cls r
        \<and> highestScore (ruleLoop orch msg cls) = calculateRuleScore msg cls r
        \<and> (\<forall>q\<in>set (routingRules orch).
              minConfidence (conditions q) \<le> calculateRuleScore msg cls q \<longrightarrow>
              calculateRuleScore msg cls q \<le> calculateRuleScore msg cls r)
        \<and> (\<forall>a. agents orch (targetAgent r) = Some a \<longrightarrow>
              target (ruleLoop orch msg cls) = Some a)"
    using sel by blast
  have p2: "(\<forall>r\<in>set (routingRules orch). calculateRuleScore msg cls r < minConfidence (conditions r)) \<longrightarrow>
        selectedRule (ruleLoop orch msg cls) = None
        \<and> target (ruleLoop orch msg cls) = fallbackAgent orch"
  proof
    assume none: "\<forall>r\<in>set (routingRules orch). calculateRuleScore msg cls r < minConfidence (conditions r)"
    have "selectedRule (ruleLoop orch msg cls) = None"
    proof (cases "selectedRule (ruleLoop orch msg cls)")
      case None then show ?thesis .
    next
      case (Some r)
      from sel[OF Some] have "r \<in> set (routingRules orch)"
        "minConfidence (conditions r) \<le> calculateRuleScore msg cls r" by simp_all
      with none show ?thesis by force
    qed
    with R1 show "selectedRule (ruleLoop orch msg cls) = None
        \<and> target (ruleLoop orch msg cls) = fallbackAgent orch" by simp
  qed
  have p3: "target (ruleLoop orch msg cls) = fallbackAgent orch
        \<or> (\<exists>q\<in>set (routingRules orch).
              0 < calculateRuleScore msg cls q
              \<and> minConfidence (conditions q) \<le> calculateRuleScore msg cls q
              \<and> target (ruleLoop orch msg cls) = agents orch (targetAgent q)
              \<and> target (ruleLoop orch msg cls) \<noteq> None)"
    by (rule R3)
  have p4: "\<forall>xs r ys.
         routingRules orch = xs @ r # ys
         \<and> 0 < calculateRuleScore msg cls r
         \<and> minConfidence (conditions r) \<le> calculateRuleScore msg cls r
         \<and> (\<forall>q\<in>set xs. minConfidence (conditions q) \<le> calculateRuleScore msg cls q \<longrightarrow>
                calculateRuleScore msg cls q < calculateRuleScore msg cls r)
         \<and> (\<forall>q\<in>set ys. minConfidence (conditions q) \<le> calculateRuleScore msg cls q \<longrightarrow>
                calculateRuleScore msg cls q \<le> calculateRuleScore msg cls r) \<longrightarrow>
         selectedRule (ruleLoop orch msg cls) = Some r
         \<and> highestScore (ruleLoop orch msg cls) = calculateRuleScore msg cls r
         \<and> (\<forall>a. agents orch (targetAgent r) = Some a \<longrightarrow>
                target (ruleLoop orch msg cls) = Some a)"
  proof (intro allI impI)
    fix xs r ys
    assume a: "routingRules orch = xs @ r # ys
         \<and> 0 < calculateRuleScore msg cls r
         \<and> minConfidence (conditions r) \<le> calculateRuleScore msg cls r
         \<and> (\<forall>q\<in>set xs. minConfidence (conditions q) \<le> calculateRuleScore msg cls q \<longrightarrow>
                calculateRuleScore msg cls q < calculateRuleScore msg cls r)
         \<and> (\<forall>q\<in>set ys. minConfidence (conditions q) \<le> calculateRuleScore msg cls q \<longrightarrow>
                calculateRuleScore msg cls q \<le> calculateRuleScore msg cls r)"
    then have fb: "selectedRule (ruleLoop orch msg cls) = Some r
        \<and> highestScore (ruleLoop orch msg cls) = calculateRuleScore msg cls r"
      by (intro ruleLoop_first_best[of orch xs r ys msg cls]) simp_all
    with sel[of r] show "selectedRule (ruleLoop orch msg cls) = Some r
         \<and> highestScore (ruleLoop orch msg cls) = calculateRuleScore msg cls r
         \<and> (\<forall>a. agents orch (targetAgent r) = Some a \<longrightarrow>
                target (ruleLoop orch msg cls) = Some a)"
      by simp
  qed
  have p5: "\<forall>res w'. route orch sid msg now w = (Inr res, w') \<longrightarrow>
        Some (chosenAgent res) =
          (case continuityAgent orch (getSession (memoryStore w) sid) (classifyMessage msg) of
             Some a \<Rightarrow> Some a
           | None \<Rightarrow> target (ruleLoop orch msg (classifyMessage msg)))"
    using route_chosen by blast
  have p6: "fallbackAgent orch \<noteq> None \<longrightarrow> (\<exists>res w'. route orch sid msg now w = (Inr res, w'))"
    using route_total by blast
  show ?thesis
    by (intro conjI) (rule p1, rule p2, rule p3, rule p4, rule p5, rule p6)
qed


lemma classify_wantRefund:
  "classifyMessage wantRefund = \<lparr>primary = ''REFUND_REQUEST'', secondary = [], confidence = 1 / 11\<rparr>"
  by code_simp

lemma score_wantRefund:
  "calculateRuleScore wantRefund
     \<lparr>primary = ''REFUND_REQUEST'', secondary = [], confidence = 1 / 11\<rparr> refundRule = 7 / 10"
  "calculateRuleScore wantRefund
     \<lparr>primary = ''REFUND_REQUEST'', secondary = [], confidence = 1 / 11\<rparr> strictRule = 7 / 10"
  by (simp_all add: calculateRuleScore_def wantRefund_def refundRule_def strictRule_def
      toLowerCase_def toLowerChar_def replaceUnderscores_def Let_def)

lemma demo_orchestrators:
  "routingRules demoOrchestrator = [refundRule]"
  "routingRules strictOrchestrator = [strictRule]"
  "fallbackAgent demoOrchestrator = Some generalAgent"
  "fallbackAgent strictOrchestrator = Some generalAgent"
  "agents demoOrchestrator ''refund-processing-agent'' = Some refundAgent"
  "agents strictOrchestrator ''refund-processing-agent'' = Some refundAgent"
  by (simp_all add: demoOrchestrator_def strictOrchestrator_def newOrchestrator_def demoConfig_def
      indexAgents_def refundAgent_def generalAgent_def)

lemma agents_differ: "refundAgent \<noteq> generalAgent"
  by (simp add: refundAgent_def generalAgent_def)

lemma related_refund:
  "isRelatedToCurrentAgent \<lparr>primary = ''REFUND_REQUEST'', secondary = [], confidence = 1 / 11\<rparr>
     refundAgent"
  by (simp add: isRelatedToCurrentAgent_def refundAgent_def toLowerCase_def toLowerChar_def Let_def)

lemma demoStore_fresh:
  "\<exists>s. getSession (memoryStore (worldOf demoStore)) demoSid = Some s
       \<and> currentAgent (sessionContext s) = []"
  by (simp add: worldOf_def demoStore_def startSession_def emptyStore_def getSession_def Let_def)

lemma withRefundAgent_session:
  "\<exists>s. getSession (memoryStore (worldOf withRefundAgent)) demoSid = Some s
       \<and> currentAgent (sessionContext s) = ''refund-processing-agent''"
  by (simp add: worldOf_def withRefundAgent_def setCurrentAgent_def demoStore_def startSession_def
      emptyStore_def getSession_def Let_def)

lemma mixed_orchestrator:
  "routingRules mixedOrchestrator = [returnRule, strictRule]"
  "fallbackAgent mixedOrchestrator = Some generalAgent"
  "agents mixedOrchestrator ''return-processing-agent'' = Some returnsAgent"
  "targetAgent returnRule = ''return-processing-agent''"
  "minConfidence (conditions returnRule) = 2 / 10"
  by (simp_all add: mixedOrchestrator_def newOrchestrator_def demoConfig_def indexAgents_def
      refundAgent_def generalAgent_def returnsAgent_def returnRule_def)

lemma score_returnRule:
  "calculateRuleScore wantRefund
     \<lparr>primary = ''REFUND_REQUEST'', secondary = [], confidence = 1 / 11\<rparr> returnRule = 2 / 10"
  by (simp add: calculateRuleScore_def wantRefund_def returnRule_def
      toLowerCase_def toLowerChar_def replaceUnderscores_def Let_def)

text \<open>A refund request: the rule with threshold 0.3 is selected at score 0.7; with the
  threshold 0.95 no rule is selected and a session without current agent gets the
  fallback agent; and with a rule that scores 0.2 against a threshold of 0.2 before the
  rule that scores 0.7 against 0.95, the agent of the former is returned although the
  latter has the higher score.\<close>

theorem route_respects_minConfidence_witness:
  "selectedRule (ruleLoop demoOrchestrator wantRefund (classifyMessage wantRefund)) = Some refundRule
   \<and> minConfidence (conditions refundRule) = 3 / 10
   \<and> calculateRuleScore wantRefund (classifyMessage wantRefund) refundRule = 7 / 10
   \<and> highestScore (ruleLoop demoOrchestrator wantRefund (classifyMessage wantRefund)) = 7 / 10
   \<and> routingRules strictOrchestrator = [strictRule]
   \<and> minConfidence (conditions strictRule) = 19 / 20
   \<and> calculateRuleScore wantRefund (classifyMessage wantRefund) strictRule = 7 / 10
   \<and> selectedRule (ruleLoop strictOrchestrator wantRefund (classifyMessage wantRefund)) = None
   \<and> (\<exists>res w'. route strictOrchestrator demoSid wantRefund ''2026-01-01T00:00:30.000Z''
                   (worldOf demoStore) = (Inr res, w')
         \<and> chosenAgent res = generalAgent)
   \<and> routingRules mixedOrchestrator = [returnRule, strictRule]
   \<and> minConfidence (conditions returnRule) = 2 / 10
   \<and> calculateRuleScore wantRefund (classifyMessage wantRefund) returnRule = 2 / 10
   \<and> selectedRule (ruleLoop mixedOrchestrator wantRefund (classifyMessage wantRefund)) = Some returnRule
   \<and> (\<exists>res w'. route mixedOrchestrator demoSid wantRefund ''2026-01-01T00:00:30.000Z''
                   (worldOf demoStore) = (Inr res, w')
         \<and> chosenAgent res = returnsAgent)"
proof -
  let ?cls = "classifyMessage wantRefund"
  have mc: "minConfidence (conditions refundRule) = 3 / 10" "minConfidence (conditions strictRule) = 19 / 20"
    by (simp_all add: refundRule_def strictRule_def)
  have sc: "calculateRuleScore wantRefund ?cls refundRule = 7 / 10"
    "calculateRuleScore wantRefund ?cls strictRule = 7 / 10"
    "calculateRuleScore wantRefund ?cls returnRule = 2 / 10"
    by (simp_all add: classify_wantRefund score_wantRefund score_returnRule)
  have sel: "selectedRule (ruleLoop demoOrchestrator wantRefund ?cls) = Some refundRule"
    by (simp add: ruleLoop_def demo_orchestrators ruleStep_def sc mc Let_def)
  note A = route_respects_minConfidence[of demoOrchestrator wantRefund ?cls demoSid
      "''2026-01-01T00:00:30.000Z''" "worldOf demoStore"]
  note B = route_respects_minConfidence[of strictOrchestrator wantRefund ?cls demoSid
      "''2026-01-01T00:00:30.000Z''" "worldOf demoStore"]
  note C = route_respects_minConfidence[of mixedOrchestrator wantRefund ?cls demoSid
      "''2026-01-01T00:00:30.000Z''" "worldOf demoStore"]
  from A[THEN conjunct1, rule_format, OF sel]
  have hs: "highestScore (ruleLoop demoOrchestrator wantRefund ?cls) = 7 / 10"
    using sc(1) by simp
  have none: "\<forall>r\<in>set (routingRules strictOrchestrator).
      calculateRuleScore wantRefund ?cls r < minConfidence (conditions r)"
    by (simp add: demo_orchestrators sc mc)
  from B[THEN conjunct2, THEN conjunct1, THEN mp, OF none]
  have loop: "selectedRule (ruleLoop strictOrchestrator wantRefund ?cls) = None"
    "target (ruleLoop strictOrchestrator wantRefund ?cls) = Some generalAgent"
    by (simp_all add: demo_orchestrators)
  from demoStore_fresh obtain s where s: "getSession (memoryStore (worldOf demoStore)) demoSid = Some s"
    "currentAgent (sessionContext s) = []" by blast
  have cont: "continuityAgent orch (getSession (memoryStore (worldOf demoStore)) demoSid) ?cls = None"
    for orch
    by (simp add: continuityAgent_def s)
  note B5 = B[THEN conjunct2, THEN conjunct2, THEN conjunct2, THEN conjunct2]
  from B5[THEN conjunct2] obtain res w' where
    r: "route strictOrchestrator demoSid wantRefund ''2026-01-01T00:00:30.000Z''
                   (worldOf demoStore) = (Inr res, w')"
    by (auto simp: demo_orchestrators)
  from B5[THEN conjunct1, rule_format, OF r]
  have chosenB: "chosenAgent res = generalAgent" by (simp add: cont loop)
  have best: "routingRules mixedOrchestrator = [] @ returnRule # [strictRule]
         \<and> 0 < calculateRuleScore wantRefund ?cls returnRule
         \<and> minConfidence (conditions returnRule) \<le> calculateRuleScore wantRefund ?cls returnRule
         \<and> (\<forall>q\<in>set []. minConfidence (conditions q) \<le> calculateRuleScore wantRefund ?cls q \<longrightarrow>
                calculateRuleScore wantRefund ?cls q < calculateRuleScore wantRefund ?cls returnRule)
         \<and> (\<forall>q\<in>set [strictRule]. minConfidence (conditions q) \<le> calculateRuleScore wantRefund ?cls q \<longrightarrow>
                calculateRuleScore wantRefund ?cls q \<le> calculateRuleScore wantRefund ?cls returnRule)"
    by (simp add: mixed_orchestrator sc mc)
  note C4 = C[THEN conjunct2, THEN conjunct2, THEN conjunct2, THEN conjunct1,
      THEN spec, THEN spec, THEN spec, THEN mp, OF best]
  from C4 have selC: "selectedRule (ruleLoop mixedOrchestrator wantRefund ?cls) = Some returnRule"
    and tgtC: "target (ruleLoop mixedOrchestrator wantRefund ?cls) = Some returnsAgent"
    by (simp_all add: mixed_orchestrator)
  note C5 = C[THEN conjunct2, THEN conjunct2, THEN conjunct2, THEN conjunct2]
  from C5[THEN conjunct2] obtain resC wC where
    rC: "route mixedOrchestrator demoSid wantRefund ''2026-01-01T00:00:30.000Z''
                   (worldOf demoStore) = (Inr resC, wC)"
    by (auto simp: mixed_orchestrator)
  from C5[THEN conjunct1, rule_format, OF rC]
  have chosenC: "chosenAgent resC = returnsAgent" by (simp add: cont tgtC)
  from r chosenB rC chosenC sel mc sc hs loop selC show ?thesis
    by (simp add: demo_orchestrators mixed_orchestrator)
qed

text \<open>The claim as stated fails: no rule qualifies, yet \<^verbatim>\<open>route\<close> returns the refund agent
  and not the fallback agent, because the refund agent is the session's current agent and
  is related to the intent.\<close>

theorem route_respects_minConfidence_counterexample:
  "routingRules strictOrchestrator = [strictRule]
   \<and> calculateRuleScore wantRefund (classifyMessage wantRefund) strictRule = 7 / 10
   \<and> minConfidence (conditions strictRule) = 19 / 20
   \<and> fallbackAgent strictOrchestrator = Some generalAgent
   \<and> targetAgent strictRule = agentId refundAgent
   \<and> (\<exists>res w'. route strictOrchestrator demoSid wantRefund ''2026-01-01T00:00:30.000Z''
                   (worldOf withRefundAgent) = (Inr res, w')
         \<and> chosenAgent res = refundAgent)
   \<and> refundAgent \<noteq> generalAgent"
proof -
  let ?cls = "classifyMessage wantRefund"
  from withRefundAgent_session obtain s where
    s: "getSession (memoryStore (worldOf withRefundAgent)) demoSid = Some s"
      "currentAgent (sessionContext s) = ''refund-processing-agent''" by blast
  have cont: "continuityAgent strictOrchestrator
      (getSession (memoryStore (worldOf withRefundAgent)) demoSid) ?cls = Some refundAgent"
    by (simp add: continuityAgent_def s demo_orchestrators classify_wantRefund related_refund)
  from route_total[of strictOrchestrator demoSid wantRefund "''2026-01-01T00:00:30.000Z''"
      "worldOf withRefundAgent"]
  obtain res w' where r: "route strictOrchestrator demoSid wantRefund ''2026-01-01T00:00:30.000Z''
                   (worldOf withRefundAgent) = (Inr res, w')"
    by (auto simp: demo_orchestrators)
  from route_chosen[OF r] have c: "chosenAgent res = refundAgent" by (simp add: cont)
  have mc: "minConfidence (conditions strictRule) = 19 / 20"
    by (simp add: refundRule_def strictRule_def)
  have sc: "calculateRuleScore wantRefund ?cls strictRule = 7 / 10"
    by (simp add: classify_wantRefund score_wantRefund)
  have ta: "targetAgent strictRule = agentId refundAgent"
    by (simp add: strictRule_def refundRule_def refundAgent_def)
  from r c mc sc ta agents_differ show ?thesis
    by (auto simp: demo_orchestrators)
qed

subsection \<open>Runtime\<close>

text \<open>
  Claim C1.  For a session whose escalated flag is set, \<^verbatim>\<open>handleMessage\<close> returns the
  fixed escalation message with \<^verbatim>\<open>escalated\<close> true and the stored summary, and returns the
  world unchanged: the store, the trace and the log of router and executor calls are as
  before, for every executor.  The session is therefore still escalated at the next call.
\<close>

theorem handleMessage_escalated_short_circuit:
  assumes "getSession (memoryStore w) sid = Some session"
    and "escalated (sessionContext session)"
  shows "handleMessage rt exec sid msg now w =
           (Inr \<lparr>sessionId = sid, message = escalatedMessage, responseEscalated = True,
                  responseSummary = escalationSummary (sessionContext session)\<rparr>, w)
       \<and> invoked (snd (handleMessage rt exec sid msg now w)) = invoked w"
  using assms by (simp add: handleMessage_def isEscalated_def getSession_def)

lemma escalatedOnce_session:
  "\<exists>s. getSession (memoryStore (worldOf escalatedOnce)) demoSid = Some s
       \<and> escalated (sessionContext s)
       \<and> escalationSummary (sessionContext s) = Some (JObj [(''session_id'', JStr demoSid)])"
  by (simp add: worldOf_def escalatedOnce_def storeOf_def escalate_def demoStore_def
      startSession_def emptyStore_def getSession_def Let_def)

text \<open>A follow-up message on the escalated demo session.\<close>

theorem handleMessage_escalated_short_circuit_witness:
  "(\<exists>s. getSession (memoryStore (worldOf escalatedOnce)) demoSid = Some s
        \<and> escalated (sessionContext s))
   \<and> handleMessage demoRuntime lookingIntoIt demoSid ''Hello?'' ''2026-01-01T00:06:00.000Z''
        (worldOf escalatedOnce)
      = (Inr \<lparr>sessionId = demoSid,
               message = ''This issue has been escalated to our team. A specialist will respond shortly.'',
               responseEscalated = True,
               responseSummary = Some (JObj [(''session_id'', JStr demoSid)])\<rparr>,
         worldOf escalatedOnce)
   \<and> invoked (snd (handleMessage demoRuntime lookingIntoIt demoSid ''Hello?''
        ''2026-01-01T00:06:00.000Z'' (worldOf escalatedOnce))) = []"
proof -
  from escalatedOnce_session obtain s where
    s: "getSession (memoryStore (worldOf escalatedOnce)) demoSid = Some s"
      "escalated (sessionContext s)"
      "escalationSummary (sessionContext s) = Some (JObj [(''session_id'', JStr demoSid)])"
    by blast
  have inv: "invoked (worldOf escalatedOnce) = []" by (simp add: worldOf_def)
  from handleMessage_escalated_short_circuit[OF s(1,2), of demoRuntime lookingIntoIt "''Hello?''"
      "''2026-01-01T00:06:00.000Z''"]
  show ?thesis using s by (auto simp: escalatedMessage_def inv)
qed

text \<open>For contrast: a turn on a session that is not escalated does call the router and an
  executor.\<close>

lemma addMessage_session:
  assumes "sessions store sid = Some s"
  shows "\<exists>store' s'. addMessage store sid r c md now = Inr store'
           \<and> sessions store' sid = Some s'
           \<and> escalated (sessionContext s') = escalated (sessionContext s)
           \<and> intentHistory (sessionContext s') = intentHistory (sessionContext s)
           \<and> currentAgent (sessionContext s') = currentAgent (sessionContext s)"
  using assms by (simp add: addMessage_def extractEntities_def Let_def)

lemma route_effects:
  assumes "route orch sid msg now w = (Inr res, w')"
    and "getSession (memoryStore w) sid = Some s"
  shows "invoked w' = invoked w
       \<and> (\<exists>s'. getSession (memoryStore w') sid = Some s'
              \<and> escalated (sessionContext s') = escalated (sessionContext s)
              \<and> intentHistory (sessionContext s')
                   = intentHistory (sessionContext s) @ [primary (classifyMessage msg)])"
  using assms
  by (auto simp: route_def Let_def getSession_def recordIntent_def setCurrentAgent_def
      split: option.splits)

lemma handleMessage_normal_turn:
  "\<exists>resp w'. handleMessage demoRuntime lookingIntoIt demoSid wantRefund ''2026-01-01T00:00:30.000Z''
                 (worldOf demoStore) = (Inr resp, w')
      \<and> message resp = ''Let me check that refund for you.''
      \<and> \<not> responseEscalated resp
      \<and> invoked w' = [RouteCall demoSid wantRefund,
                       ExecuteCall ''refund-processing-agent'' demoSid wantRefund]"
proof -
  let ?now = "''2026-01-01T00:00:30.000Z''"
  let ?w0 = "worldOf demoStore"
  let ?orch = "orchestrator demoRuntime"
  have orch: "?orch = demoOrchestrator"
    by (simp add: demoRuntime_def createMASRuntime_def demoOrchestrator_def)
  have execs: "executors demoRuntime ''refund-processing-agent'' = Some refundAgent"
    by (simp add: demoRuntime_def createMASRuntime_def demoConfig_def indexAgents_def
        refundAgent_def generalAgent_def)
  have plain: "\<not> explicitRequest wantRefund"
    by (simp add: explicitRequest_def wantRefund_def escalationKeywords_def escalationPhrases_def
        toLowerCase_def toLowerChar_def)
  obtain s0 where s0: "sessions demoStore demoSid = Some s0" "\<not> escalated (sessionContext s0)"
    "intentHistory (sessionContext s0) = []" "currentAgent (sessionContext s0) = []"
    by (simp add: demoStore_def startSession_def emptyStore_def Let_def)
  from addMessage_session[OF s0(1), of Customer wantRefund None ?now]
  obtain store1 s1 where a1: "addMessage demoStore demoSid Customer wantRefund None ?now = Inr store1"
    and s1: "sessions store1 demoSid = Some s1" "\<not> escalated (sessionContext s1)"
      "intentHistory (sessionContext s1) = []" "currentAgent (sessionContext s1) = []"
    using s0 by auto
  define w1 where "w1 = ?w0\<lparr>memoryStore := store1,
      tracer := traceMessage (tracer ?w0) demoSid Customer wantRefund ?now\<rparr>"
  have g1: "getSession (memoryStore w1) demoSid = Some s1"
    by (simp add: w1_def getSession_def s1)
  have c1: "checkEscalation demoOrchestrator demoSid wantRefund None ?now w1 = (Inr notEscalated, w1)"
    using checkEscalation_quiet[OF g1 s1(2) plain] s1(3) by simp
  define w2 where "w2 = w1\<lparr>invoked := invoked w1 @ [RouteCall demoSid wantRefund]\<rparr>"
  have g2: "getSession (memoryStore w2) demoSid = Some s1"
    by (simp add: w2_def g1[unfolded getSession_def] getSession_def)
  from route_total[of demoOrchestrator demoSid wantRefund ?now w2]
  obtain routed w3 where r: "route demoOrchestrator demoSid wantRefund ?now w2 = (Inr routed, w3)"
    by (auto simp: demo_orchestrators)
  have cont: "continuityAgent demoOrchestrator (getSession (memoryStore w2) demoSid)
      (classifyMessage wantRefund) = None"
    by (simp add: continuityAgent_def g2 s1)
  have tgt: "target (ruleLoop demoOrchestrator wantRefund (classifyMessage wantRefund)) = Some refundAgent"
    by (simp add: ruleLoop_def demo_orchestrators ruleStep_def classify_wantRefund score_wantRefund
        Let_def refundRule_def[THEN arg_cong, of "\<lambda>r. minConfidence (conditions r)"]
        refundRule_def[THEN arg_cong, of targetAgent])
  from route_chosen[OF r] have chosen: "chosenAgent routed = refundAgent"
    by (simp add: cont tgt)
  from route_effects[OF r g2] obtain s3 where
    i3: "invoked w3 = [RouteCall demoSid wantRefund]"
    and s3: "getSession (memoryStore w3) demoSid = Some s3" "\<not> escalated (sessionContext s3)"
      "length (intentHistory (sessionContext s3)) \<le> 3"
    using s1 by (auto simp: w2_def w1_def worldOf_def)
  define w4 where "w4 = w3\<lparr>invoked := invoked w3 @
      [ExecuteCall (agentId refundAgent) demoSid wantRefund]\<rparr>"
  have g4: "sessions (memoryStore w4) demoSid = Some s3"
    using s3(1) by (simp add: w4_def getSession_def)
  from addMessage_session[OF g4, of Agent "''Let me check that refund for you.''" None
      "''2026-01-01T00:00:31.000Z''"]
  obtain store5 s5 where a5: "addMessage (memoryStore w4) demoSid Agent
      ''Let me check that refund for you.'' None ''2026-01-01T00:00:31.000Z'' = Inr store5"
    and s5: "sessions store5 demoSid = Some s5" "\<not> escalated (sessionContext s5)"
      "length (intentHistory (sessionContext s5)) \<le> 3"
    using s3 by auto
  define w5 where "w5 = w4\<lparr>memoryStore := store5,
      tracer := traceMessage (tracer w4) demoSid Agent ''Let me check that refund for you.''
                  ''2026-01-01T00:00:31.000Z''\<rparr>"
  have ex: "lookingIntoIt refundAgent demoSid wantRefund w4
      = (Inr \<lparr>replyMessage = ''Let me check that refund for you.''\<rparr>, w5)"
    using g4 a5 by (simp add: lookingIntoIt_def replyingExecutor_def getSession_def w5_def)
  have g5: "getSession (memoryStore w5) demoSid = Some s5"
    by (simp add: w5_def getSession_def s5)
  have c5: "checkEscalation demoOrchestrator demoSid wantRefund
      (Some ''Let me check that refund for you.'') ?now w5 = (Inr notEscalated, w5)"
    using checkEscalation_quiet[OF g5 s5(2) plain s5(3)] by simp
  have i5: "invoked w5 = [RouteCall demoSid wantRefund,
                       ExecuteCall ''refund-processing-agent'' demoSid wantRefund]"
    by (simp add: w5_def w4_def i3 refundAgent_def)
  have g0: "getSession (memoryStore ?w0) demoSid = Some s0" "\<not> isEscalated (memoryStore ?w0) demoSid"
    using s0 by (simp_all add: worldOf_def getSession_def isEscalated_def)
  have aid: "agentId refundAgent = ''refund-processing-agent''" by (simp add: refundAgent_def)
  have "handleMessage demoRuntime lookingIntoIt demoSid wantRefund ?now ?w0
      = (Inr \<lparr>sessionId = demoSid, message = ''Let me check that refund for you.'',
               responseEscalated = False, responseSummary = None\<rparr>, w5)"
    unfolding handleMessage_def orch
    using g0 a1 c1[unfolded w1_def] r[unfolded w2_def w1_def] chosen execs
      ex[unfolded w4_def] c5
    by (simp add: worldOf_def notEscalated_def aid)
  then show ?thesis using i5 by simp
qed





















end
